theory Spec2Isabelle
  imports Complex_Main "HOL-Library.Sublist"
begin

section \<open>The command-line driver: lookup tables and argument resolution\<close>

text \<open>
  The script \<^verbatim>\<open>scripts/recon_cutsky.py\<close> is embedded shallowly. Python floats are
  modelled as \<^typ>\<open>real\<close>, Python strings as \<^typ>\<open>string\<close>, \<^verbatim>\<open>None\<close>-able
  arguments as \<^typ>\<open>'a option\<close>, and exceptions as values of the type \<open>error\<close>.
\<close>

datatype error = FileNotFoundError | IndexError | ValueError | KeyError | UnboundLocalError

subsection \<open>\<^verbatim>\<open>get_bias\<close> (lines 92-102)\<close>

text \<open>\<^verbatim>\<open>str.startswith\<close>: the first \<open>len(p)\<close> characters of \<open>s\<close> are \<open>p\<close>.\<close>

definition startswith :: "string \<Rightarrow> string \<Rightarrow> bool" where
  "startswith s p = (take (length p) s = p)"

definition get_bias :: "string \<Rightarrow> real" where
  "get_bias tracer =
     (if startswith tracer ''ELG'' then 1.2
      else if startswith tracer ''QSO'' then 2.07
      else if startswith tracer ''LRG'' then 1.99
      else if startswith tracer ''BGS'' then 1.5
      else 1.2)"

subsection \<open>The body of \<^verbatim>\<open>__main__\<close> (lines 137-160)\<close>

text \<open>The three reconstruction classes imported from the external library (line 10).\<close>

datatype recon_class =
    MultiGridReconstruction
  | IterativeFFTReconstruction
  | IterativeFFTParticleReconstruction

text \<open>
  Lines 137-141: the dictionary literal indexed by \<^verbatim>\<open>args.algorithm\<close>. A key that is
  not in the dictionary raises \<^verbatim>\<open>KeyError\<close>.
\<close>

definition select_Reconstruction :: "string \<Rightarrow> error + recon_class" where
  "select_Reconstruction algorithm =
     (if algorithm = ''MG'' then Inr MultiGridReconstruction
      else if algorithm = ''IFT'' then Inr IterativeFFTReconstruction
      else if algorithm = ''IFTP'' then Inr IterativeFFTParticleReconstruction
      else Inl KeyError)"

text \<open>Line 118: the values that the command line admits for \<^verbatim>\<open>--convention\<close>.\<close>

definition convention_choices :: "string list" where
  "convention_choices = [''reciso'', ''recsym'']"

text \<open>Lines 148-151: \<^verbatim>\<open>args.bias\<close> when it is not \<^verbatim>\<open>None\<close>, the tracer's default otherwise.\<close>

definition resolve_bias :: "real option \<Rightarrow> string \<Rightarrow> real" where
  "resolve_bias bias_arg tracer =
     (case bias_arg of Some b \<Rightarrow> b | None \<Rightarrow> get_bias tracer)"

text \<open>
  Line 157: the list comprehension \<^verbatim>\<open>[float(zlim) for zlim in args.zlim]\<close>. Python's
  builtin \<^verbatim>\<open>float\<close> is a parameter \<open>float_of\<close>; it raises \<^verbatim>\<open>ValueError\<close> on a string
  that is not a number, and the first failure aborts the comprehension.
\<close>

fun parse_floats :: "(string \<Rightarrow> error + real) \<Rightarrow> string list \<Rightarrow> error + real list" where
  "parse_floats float_of [] = Inr []"
| "parse_floats float_of (s # ss) =
     (case float_of s of
        Inl e \<Rightarrow> Inl e
      | Inr v \<Rightarrow> (case parse_floats float_of ss of
                   Inl e \<Rightarrow> Inl e
                 | Inr vs \<Rightarrow> Inr (v # vs)))"

text \<open>
  Line 160: \<^verbatim>\<open>zlims = [(zlims[0], zlims[-1])]\<close>. Indexing an empty sequence raises
  \<^verbatim>\<open>IndexError\<close>.
\<close>

definition first_last :: "real list \<Rightarrow> error + (real \<times> real) list" where
  "first_last zlims =
     (if zlims = [] then Inl IndexError else Inr [(hd zlims, last zlims)])"

text \<open>
  Lines 156-160. \<^verbatim>\<open>get_z_cutsky\<close> belongs to \<^verbatim>\<open>optimalrecon.io_tools\<close>, which is not
  part of the script; it is a parameter returning the default limits of a tracer. The
  result is the list that the loop of line 164 iterates over.
\<close>

definition resolve_zlims ::
  "(string \<Rightarrow> error + real) \<Rightarrow> (string \<Rightarrow> real list) \<Rightarrow> string \<Rightarrow> string list option
     \<Rightarrow> error + (real \<times> real) list" where
  "resolve_zlims float_of get_z_cutsky tracer zlim_arg =
     (case (case zlim_arg of
              Some ss \<Rightarrow> parse_floats float_of ss
            | None \<Rightarrow> Inr (get_z_cutsky tracer)) of
        Inl e \<Rightarrow> Inl e
      | Inr zlims \<Rightarrow> first_last zlims)"

section \<open>The data model of \<^verbatim>\<open>run_reconstruction\<close>\<close>

subsection \<open>Tables\<close>

text \<open>
  A catalog is a table: named columns in order, each column the list of its cells in row
  order. The operations are those of the table library that the script uses on catalogs.
\<close>

type_synonym column = "real list"
type_synonym table = "(string \<times> column) list"

definition nrows :: "table \<Rightarrow> nat" where
  "nrows t = (case t of [] \<Rightarrow> 0 | (name, col) # rest \<Rightarrow> length col)"

definition colnames :: "table \<Rightarrow> string list" where
  "colnames t = map fst t"

definition get_column :: "table \<Rightarrow> string \<Rightarrow> column option" where
  "get_column t name = map_of t name"

text \<open>Boolean-mask selection of a column: the cells whose mask entry is true, in order.\<close>

definition mask_column :: "bool list \<Rightarrow> column \<Rightarrow> column" where
  "mask_column msk col = map fst (filter snd (zip col msk))"

text \<open>
  \<^verbatim>\<open>table[mask]\<close> with the mask \<open>msk\<close>: every column is restricted to the selected rows. A mask whose length
  is not the number of rows raises \<^verbatim>\<open>IndexError\<close>.
\<close>

definition select_rows :: "table \<Rightarrow> bool list \<Rightarrow> error + table" where
  "select_rows t msk =
     (if length msk \<noteq> nrows t then Inl IndexError
      else Inr (map (\<lambda>(name, col). (name, mask_column msk col)) t))"

text \<open>The column \<open>name\<close> replaced where it stands, the other columns as they are.\<close>

fun replace_column :: "table \<Rightarrow> string \<Rightarrow> column \<Rightarrow> table" where
  "replace_column [] name col = []"
| "replace_column ((n, c) # rest) name col =
     (if n = name then (n, col) # rest else (n, c) # replace_column rest name col)"

text \<open>
  \<^verbatim>\<open>table[name] = col\<close>: a column of that name is replaced in place, a new name is
  appended as the last column. In a table that has columns, a column of another length
  than the number of rows raises \<^verbatim>\<open>ValueError\<close>.
\<close>

definition set_column :: "table \<Rightarrow> string \<Rightarrow> column \<Rightarrow> error + table" where
  "set_column t name col =
     (if t \<noteq> [] \<and> length col \<noteq> nrows t then Inl ValueError
      else if name \<in> set (colnames t) then Inr (replace_column t name col)
      else Inr (t @ [(name, col)]))"

subsection \<open>Paths\<close>

text \<open>
  \<^verbatim>\<open>os.path.dirname\<close> on a POSIX path: the part up to the last slash, with trailing
  slashes removed unless it consists of slashes only.
\<close>

definition dirname :: "string \<Rightarrow> string" where
  "dirname p =
     (let head = rev (dropWhile (\<lambda>c. c \<noteq> CHR ''/'') (rev p))
      in if head \<noteq> [] \<and> head \<noteq> replicate (length head) (CHR ''/'')
         then rev (dropWhile (\<lambda>c. c = CHR ''/'') (rev head))
         else head)"

text \<open>
  \<^verbatim>\<open>randoms_fn\<close> and \<^verbatim>\<open>randoms_rec_fn\<close> are either one path or a sequence of paths.
  Line 24 wraps a single path (\<^verbatim>\<open>np.ndim(randoms_fn) == 0\<close>) into a list of one entry.
  \<^verbatim>\<open>randoms_rec_fn\<close> is not wrapped: line 76 iterates over it as it is, and iterating
  over a Python string yields its characters.
\<close>

datatype fn_arg = Scalar string | Many "string list"

definition wrap_scalar :: "fn_arg \<Rightarrow> string list" where
  "wrap_scalar a = (case a of Scalar s \<Rightarrow> [s] | Many xs \<Rightarrow> xs)"

definition iterate :: "fn_arg \<Rightarrow> string list" where
  "iterate a = (case a of Scalar s \<Rightarrow> map (\<lambda>c. [c]) s | Many xs \<Rightarrow> xs)"

subsection \<open>Calls into the libraries, and the world they act on\<close>

text \<open>
  The type \<open>'p\<close> stands for the position arrays that the reconstruction library takes
  and returns; the script never looks inside them. A variable that the script
  initialises with \<^verbatim>\<open>None\<close> has type \<^typ>\<open>'p option\<close>.
\<close>

datatype rec_kwargs =
    MpiKwargs (kw_mpicomm: nat) (kw_mpiroot: nat)
  | FftKwargs (kw_fft_engine: string) (kw_nthreads: int)

record 'p recon_init =
  init_f :: real
  init_bias :: real
  init_boxsize :: "real option"
  init_nmesh :: "int option"
  init_cellsize :: real
  init_los :: string
  init_positions :: "'p option"
  init_boxpad :: real
  init_dtype :: string
  init_kwargs :: rec_kwargs

text \<open>
  The first argument of \<^verbatim>\<open>read_shifted_positions\<close>: the tag \<^verbatim>\<open>'data'\<close> or a position
  array.
\<close>

datatype 'p target = Tag string | Array "'p option"

type_synonym catalog_columns =
  "(column \<times> column \<times> column) \<times> column \<times> bool list"

text \<open>
  One event per call that leaves the script: reading and writing tables, reading
  positions and weights of a catalog file, the calls on the reconstruction object, and the
  creation of a directory. An event records the arguments of the call and, for a call
  whose result the script uses, the result. Calls to the logger are not recorded.
\<close>

datatype 'p event =
    TableRead string "table option"
  | ReadPositionsWeights string bool "error + catalog_columns"
  | Construct recon_class "'p recon_init"
  | AssignData "'p option" "column option"
  | AssignRandoms "'p option" "column option"
  | SetDensityContrast real
  | Run
  | ReadShiftedPositions "'p target" string 'p
  | Mkdir string
  | TableWrite string table string bool

text \<open>The world: the tables stored on disk and the calls made so far, oldest first.\<close>

record 'p world =
  fs :: "string \<rightharpoonup> table"
  trace :: "'p event list"

text \<open>
  The functions that the script calls and does not define. \<open>read_positions_weights_cutsky\<close>
  (of \<^verbatim>\<open>optimalrecon.io_tools\<close>, with the keyword arguments of the call already applied)
  reads a catalog file from disk and returns right ascension, declination and redshift,
  the weights and the selection mask, or raises. \<open>read_shifted_positions\<close> is a method of
  the reconstruction object: its answer may depend on every call made before.
\<close>

record 'p env =
  read_positions_weights_cutsky ::
    "(string \<rightharpoonup> table) \<Rightarrow> string \<Rightarrow> bool \<Rightarrow> error + catalog_columns"
  sky_to_cartesian :: "column \<Rightarrow> column \<Rightarrow> column \<Rightarrow> string \<Rightarrow> 'p"
  cartesian_to_sky :: "'p \<Rightarrow> column \<times> column \<times> column"
  DistanceToRedshift :: "(column \<Rightarrow> column) \<Rightarrow> column \<Rightarrow> column"
  read_shifted_positions :: "'p event list \<Rightarrow> 'p target \<Rightarrow> string \<Rightarrow> 'p"

text \<open>
  The arguments of \<^verbatim>\<open>run_reconstruction\<close> (lines 17-20). \<open>f_growth\<close> is the argument
  \<^verbatim>\<open>f\<close>; \<open>mpicomm\<close> is \<^verbatim>\<open>None\<close> or a communicator, of which the script reads the rank.
\<close>

record rr_args =
  Reconstruction :: recon_class
  distance :: "column \<Rightarrow> column"
  data_fn :: string
  randoms_fn :: fn_arg
  data_rec_fn :: string
  randoms_rec_fn :: fn_arg
  f_growth :: real
  bias :: real
  boxsize :: "real option"
  nmesh :: "int option"
  cellsize :: real
  smoothing_radius :: real
  nthreads :: int
  convention :: string
  dtype :: string
  mpicomm :: "nat option"

subsection \<open>Programs: state, trace and exceptions\<close>

text \<open>
  A program takes the world and returns the world it leaves, with either its value or
  the exception that ended it. \<open>bind\<close> runs the second program only when the first one
  returns.
\<close>

type_synonym ('p, 'a) prog = "'p world \<Rightarrow> (error + 'a) \<times> 'p world"

definition return :: "'a \<Rightarrow> ('p, 'a) prog" where
  "return x = (\<lambda>w. (Inr x, w))"

definition raise :: "error \<Rightarrow> ('p, 'a) prog" where
  "raise e = (\<lambda>w. (Inl e, w))"

definition bind :: "('p, 'a) prog \<Rightarrow> ('a \<Rightarrow> ('p, 'b) prog) \<Rightarrow> ('p, 'b) prog" where
  "bind m k = (\<lambda>w. case m w of (Inl e, w') \<Rightarrow> (Inl e, w') | (Inr x, w') \<Rightarrow> k x w')"

definition lift :: "error + 'a \<Rightarrow> ('p, 'a) prog" where
  "lift r = (case r of Inl e \<Rightarrow> raise e | Inr x \<Rightarrow> return x)"

definition log_event :: "'p event \<Rightarrow> 'p world \<Rightarrow> 'p world" where
  "log_event e w = w\<lparr>trace := trace w @ [e]\<rparr>"

text \<open>A library call with no result that the script uses.\<close>

definition call :: "'p event \<Rightarrow> ('p, unit) prog" where
  "call e = (\<lambda>w. (Inr (), log_event e w))"

text \<open>\<^verbatim>\<open>Table.read(fn)\<close>: the table stored at \<open>fn\<close>; a missing file raises.\<close>

definition table_read :: "string \<Rightarrow> ('p, table) prog" where
  "table_read fn =
     (\<lambda>w. (case fs w fn of None \<Rightarrow> Inl FileNotFoundError | Some t \<Rightarrow> Inr t,
           log_event (TableRead fn (fs w fn)) w))"

text \<open>\<^verbatim>\<open>catalog.write(fn, format=fmt, overwrite=ow)\<close>: the table is stored at \<open>fn\<close>.\<close>

definition table_write :: "table \<Rightarrow> string \<Rightarrow> string \<Rightarrow> bool \<Rightarrow> ('p, unit) prog" where
  "table_write t fn fmt ow =
     (\<lambda>w. (Inr (), log_event (TableWrite fn t fmt ow) (w\<lparr>fs := (fs w)(fn \<mapsto> t)\<rparr>)))"

definition read_positions_weights ::
  "'p env \<Rightarrow> string \<Rightarrow> bool \<Rightarrow> ('p, catalog_columns) prog" where
  "read_positions_weights env fn return_mask =
     (\<lambda>w. let r = read_positions_weights_cutsky env (fs w) fn return_mask
          in (r, log_event (ReadPositionsWeights fn return_mask r) w))"

definition read_shifted :: "'p env \<Rightarrow> 'p target \<Rightarrow> string \<Rightarrow> ('p, 'p) prog" where
  "read_shifted env tgt field =
     (\<lambda>w. let r = read_shifted_positions env (trace w) tgt field
          in (Inr r, log_event (ReadShiftedPositions tgt field r) w))"

section \<open>\<^verbatim>\<open>run_reconstruction\<close> (lines 17-89)\<close>

text \<open>Line 22: \<^verbatim>\<open>root = mpicomm is None or mpicomm.rank == 0\<close>.\<close>

definition is_root :: "rr_args \<Rightarrow> bool" where
  "is_root a = (case mpicomm a of None \<Rightarrow> True | Some rank \<Rightarrow> rank = 0)"

text \<open>
  Lines 26-35: on the root rank the data catalog is read, restricted to the mask of the
  reader, and its sky coordinates are turned into Cartesian positions. On another rank
  positions and weights stay \<^verbatim>\<open>None\<close> and \<^verbatim>\<open>data\<close> stays unbound.
\<close>

definition load_data ::
  "'p env \<Rightarrow> rr_args \<Rightarrow> ('p, table option \<times> 'p option \<times> column option) prog" where
  "load_data env a =
     (if is_root a then
        bind (table_read (data_fn a)) (\<lambda>data.
        bind (read_positions_weights env (data_fn a) True) (\<lambda>((ra, dec, z), data_weights, msk).
        bind (lift (select_rows data msk)) (\<lambda>data.
        return (Some data,
                Some (sky_to_cartesian env (distance a z) ra dec (dtype a)),
                Some data_weights))))
      else return (None, None, None))"

text \<open>Lines 37-45: the keyword arguments and the construction of the reconstruction object.\<close>

definition make_rec_kwargs :: "rr_args \<Rightarrow> rec_kwargs" where
  "make_rec_kwargs a =
     (case mpicomm a of
        Some rank \<Rightarrow> MpiKwargs rank 0
      | None \<Rightarrow> FftKwargs ''fftw'' (nthreads a))"

definition make_recon_init :: "rr_args \<Rightarrow> 'p option \<Rightarrow> 'p recon_init" where
  "make_recon_init a data_positions =
     \<lparr>init_f = f_growth a, init_bias = bias a, init_boxsize = boxsize a,
      init_nmesh = nmesh a, init_cellsize = cellsize a, init_los = ''local'',
      init_positions = data_positions, init_boxpad = 1.2, init_dtype = dtype a,
      init_kwargs = make_rec_kwargs a\<rparr>"

text \<open>
  Lines 48-54: one \<^verbatim>\<open>assign_randoms\<close> per randoms file. The variables
  \<^verbatim>\<open>randoms_positions\<close> and \<^verbatim>\<open>randoms_weights\<close> are rebound on the root rank only.
\<close>

fun assign_randoms_loop ::
  "'p env \<Rightarrow> rr_args \<Rightarrow> string list \<Rightarrow> 'p option \<times> column option
     \<Rightarrow> ('p, 'p option \<times> column option) prog" where
  "assign_randoms_loop env a [] (randoms_positions, randoms_weights) =
     return (randoms_positions, randoms_weights)"
| "assign_randoms_loop env a (fn # fns) (randoms_positions, randoms_weights) =
     bind (if is_root a then
             bind (read_positions_weights env fn False) (\<lambda>((ra, dec, z), randoms_weights, msk).
             return (Some (sky_to_cartesian env (distance a z) ra dec (dtype a)),
                     Some randoms_weights))
           else return (randoms_positions, randoms_weights)) (\<lambda>(randoms_positions, randoms_weights).
     bind (call (AssignRandoms randoms_positions randoms_weights)) (\<lambda>_.
     assign_randoms_loop env a fns (randoms_positions, randoms_weights)))"

text \<open>Line 59 and line 75: the field read for the data and the field read for the randoms.\<close>

definition data_field :: "string \<Rightarrow> string" where
  "data_field conv = (if conv = ''rsd'' then ''rsd'' else ''disp+rsd'')"

definition randoms_field :: "string \<Rightarrow> string" where
  "randoms_field conv = (if conv = ''recsym'' then ''disp+rsd'' else ''disp'')"

text \<open>
  Lines 60-63: the object is of the class it was constructed from; the particle variant
  is asked for the tag \<^verbatim>\<open>'data'\<close>, the others for the data position array.
\<close>

definition data_target :: "rr_args \<Rightarrow> 'p option \<Rightarrow> 'p target" where
  "data_target a data_positions =
     (if Reconstruction a = IterativeFFTParticleReconstruction then Tag ''data''
      else Array data_positions)"

text \<open>
  Lines 68-72, and again lines 85-89: the shifted positions are turned back into sky
  coordinates and redshift, stored in the columns RA, DEC and Z of the catalog, the
  directory of the output file is created and the catalog is written. The right-hand side
  of the tuple assignment is evaluated before the three columns are assigned from left to
  right. The Python variable \<^verbatim>\<open>dist\<close> is \<open>d\<close> here. The value is the catalog as written.
\<close>

definition save_catalog ::
  "'p env \<Rightarrow> rr_args \<Rightarrow> table \<Rightarrow> 'p \<Rightarrow> string \<Rightarrow> ('p, table) prog" where
  "save_catalog env a catalog positions_rec rec_fn =
     (case cartesian_to_sky env positions_rec of (d, ra, dec) \<Rightarrow>
        bind (lift (set_column catalog ''RA'' ra)) (\<lambda>catalog.
        bind (lift (set_column catalog ''DEC'' dec)) (\<lambda>catalog.
        bind (lift (set_column catalog ''Z'' (DistanceToRedshift env (distance a) d))) (\<lambda>catalog.
        bind (call (Mkdir (dirname rec_fn))) (\<lambda>_.
        bind (table_write catalog rec_fn ''fits'' True) (\<lambda>_.
        return catalog))))))"

text \<open>
  Lines 76-89: for each pair of a randoms file and its output file, the root rank reads
  and masks the catalog, every rank asks for the shifted positions, and the root rank
  saves the catalog.
\<close>

fun shift_randoms_loop ::
  "'p env \<Rightarrow> rr_args \<Rightarrow> string \<Rightarrow> (string \<times> string) list \<Rightarrow> table option \<times> 'p option
     \<Rightarrow> ('p, unit) prog" where
  "shift_randoms_loop env a field [] (catalog, randoms_positions) = return ()"
| "shift_randoms_loop env a field ((fn, rec_fn) # rest) (catalog, randoms_positions) =
     bind (if is_root a then
             bind (table_read fn) (\<lambda>catalog.
             bind (read_positions_weights env fn True) (\<lambda>((ra, dec, z), randoms_weights, msk).
             bind (lift (select_rows catalog msk)) (\<lambda>catalog.
             return (Some catalog,
                     Some (sky_to_cartesian env (distance a z) ra dec (dtype a))))))
           else return (catalog, randoms_positions)) (\<lambda>(catalog, randoms_positions).
     bind (read_shifted env (Array randoms_positions) field) (\<lambda>randoms_positions_rec.
     bind (if is_root a then
             (case catalog of
                None \<Rightarrow> raise UnboundLocalError
              | Some c \<Rightarrow> bind (save_catalog env a c randoms_positions_rec rec_fn) (\<lambda>c.
                          return (Some c)))
           else return catalog) (\<lambda>catalog.
     shift_randoms_loop env a field rest (catalog, randoms_positions))))"

text \<open>The function as a whole.\<close>

definition run_reconstruction :: "'p env \<Rightarrow> rr_args \<Rightarrow> ('p, unit) prog" where
  "run_reconstruction env a =
     bind (load_data env a) (\<lambda>(data, data_positions, data_weights).
     bind (call (Construct (Reconstruction a) (make_recon_init a data_positions))) (\<lambda>_.
     bind (call (AssignData data_positions data_weights)) (\<lambda>_.
     bind (assign_randoms_loop env a (wrap_scalar (randoms_fn a)) (None, None))
       (\<lambda>(randoms_positions, randoms_weights).
     bind (call (SetDensityContrast (smoothing_radius a))) (\<lambda>_.
     bind (call Run) (\<lambda>_.
     bind (read_shifted env (data_target a data_positions) (data_field (convention a)))
       (\<lambda>data_positions_rec.
     bind (if is_root a then
             (case data of
                None \<Rightarrow> raise UnboundLocalError
              | Some d \<Rightarrow> bind (save_catalog env a d data_positions_rec (data_rec_fn a)) (\<lambda>c.
                          return (Some c)))
           else return None) (\<lambda>catalog.
     if convention a \<noteq> ''rsd'' then
       shift_randoms_loop env a (randoms_field (convention a))
         (zip (wrap_scalar (randoms_fn a)) (iterate (randoms_rec_fn a)))
         (catalog, randoms_positions)
     else return ()))))))))"

section \<open>Observing a run\<close>

text \<open>
  A run starts from the tables on disk with no call made yet. Its outcome is the value or
  the exception of \<open>run_reconstruction\<close>; its calls are the events it leaves, oldest first.
\<close>

definition initial :: "(string \<rightharpoonup> table) \<Rightarrow> 'p world" where
  "initial files = \<lparr>fs = files, trace = []\<rparr>"

definition outcome :: "'p env \<Rightarrow> rr_args \<Rightarrow> (string \<rightharpoonup> table) \<Rightarrow> error + unit" where
  "outcome env a files = fst (run_reconstruction env a (initial files))"

definition calls :: "'p env \<Rightarrow> rr_args \<Rightarrow> (string \<rightharpoonup> table) \<Rightarrow> 'p event list" where
  "calls env a files = trace (snd (run_reconstruction env a (initial files)))"

subsection \<open>The shape of a call\<close>

text \<open>
  The shape of a call keeps what is fixed by the arguments of \<open>run_reconstruction\<close> and
  drops what depends on the files: of a position array or a weight column only whether
  it is given (\<open>True\<close>) or \<^verbatim>\<open>None\<close> (\<open>False\<close>), of a table nothing.
\<close>

datatype target_shape = TagShape string | ArrayShape bool

datatype call_shape =
    ReadsTable string
  | ReadsPositionsWeights string bool
  | Constructs recon_class bool
  | AssignsData bool bool
  | AssignsRandoms bool bool
  | SetsDensityContrast real
  | Runs
  | ReadsShifted target_shape string
  | MakesDir string
  | WritesTable string string bool

fun shape :: "'p event \<Rightarrow> call_shape" where
  "shape (TableRead fn r) = ReadsTable fn"
| "shape (ReadPositionsWeights fn return_mask r) = ReadsPositionsWeights fn return_mask"
| "shape (Construct cls init) = Constructs cls (init_positions init \<noteq> None)"
| "shape (AssignData p wts) = AssignsData (p \<noteq> None) (wts \<noteq> None)"
| "shape (AssignRandoms p wts) = AssignsRandoms (p \<noteq> None) (wts \<noteq> None)"
| "shape (SetDensityContrast r) = SetsDensityContrast r"
| "shape Run = Runs"
| "shape (ReadShiftedPositions (Tag s) field r) = ReadsShifted (TagShape s) field"
| "shape (ReadShiftedPositions (Array p) field r) = ReadsShifted (ArrayShape (p \<noteq> None)) field"
| "shape (Mkdir d) = MakesDir d"
| "shape (TableWrite fn t fmt ow) = WritesTable fn fmt ow"

text \<open>
  \<open>traces m cs P\<close>: from every world, the program \<open>m\<close> only appends calls to the trace;
  when it returns, the shapes of the appended calls are exactly \<open>cs\<close> and its value
  satisfies \<open>P\<close>; when it raises, they are a prefix of \<open>cs\<close>.
\<close>

definition traces :: "('p, 'a) prog \<Rightarrow> call_shape list \<Rightarrow> ('a \<Rightarrow> bool) \<Rightarrow> bool" where
  "traces m cs P =
     (\<forall>w. \<exists>es. trace (snd (m w)) = trace w @ es \<and>
        (case fst (m w) of
           Inr x \<Rightarrow> map shape es = cs \<and> P x
         | Inl e \<Rightarrow> prefix (map shape es) cs))"

text \<open>
  The shapes that a complete run leaves, stage by stage: loading the data (lines 29-35),
  assigning the randoms (lines 48-54), saving a catalog (lines 68-72 and 85-89), shifting
  the randoms (lines 76-89), and the function as a whole.
\<close>

definition load_shapes :: "rr_args \<Rightarrow> call_shape list" where
  "load_shapes a =
     (if is_root a then [ReadsTable (data_fn a), ReadsPositionsWeights (data_fn a) True] else [])"

definition assign_shapes :: "rr_args \<Rightarrow> string list \<Rightarrow> call_shape list" where
  "assign_shapes a fns =
     concat (map (\<lambda>fn. (if is_root a then [ReadsPositionsWeights fn False] else [])
                        @ [AssignsRandoms (is_root a) (is_root a)]) fns)"

definition save_shapes :: "string \<Rightarrow> call_shape list" where
  "save_shapes rec_fn = [MakesDir (dirname rec_fn), WritesTable rec_fn ''fits'' True]"

definition shift_shapes :: "rr_args \<Rightarrow> string \<Rightarrow> (string \<times> string) list \<Rightarrow> call_shape list" where
  "shift_shapes a field pairs =
     concat (map (\<lambda>(fn, rec_fn).
        (if is_root a then [ReadsTable fn, ReadsPositionsWeights fn True] else [])
        @ ReadsShifted (ArrayShape (is_root a)) field
        # (if is_root a then save_shapes rec_fn else [])) pairs)"

definition before_density :: "rr_args \<Rightarrow> call_shape list" where
  "before_density a =
     load_shapes a
     @ Constructs (Reconstruction a) (is_root a)
     # AssignsData (is_root a) (is_root a)
     # assign_shapes a (wrap_scalar (randoms_fn a))"

definition after_density :: "rr_args \<Rightarrow> call_shape list" where
  "after_density a =
     Runs
     # ReadsShifted
         (if Reconstruction a = IterativeFFTParticleReconstruction then TagShape ''data''
          else ArrayShape (is_root a))
         (data_field (convention a))
     # (if is_root a then save_shapes (data_rec_fn a) else [])
     @ (if convention a \<noteq> ''rsd''
        then shift_shapes a (randoms_field (convention a))
               (zip (wrap_scalar (randoms_fn a)) (iterate (randoms_rec_fn a)))
        else [])"

definition expected_shapes :: "rr_args \<Rightarrow> call_shape list" where
  "expected_shapes a =
     before_density a @ SetsDensityContrast (smoothing_radius a) # after_density a"

subsection \<open>The lifecycle of the reconstruction object\<close>

text \<open>
  The steps that the specification names: construct, assign data, assign randoms, set
  density contrast, run, read shifted positions, and the serialisation of a catalog.
  Reading a catalog and creating a directory are not steps of the lifecycle.
\<close>

datatype step =
  StConstruct | StAssignData | StAssignRandoms | StSetDensityContrast | StRun
  | StReadShifted | StWrite

fun step_of :: "call_shape \<Rightarrow> step option" where
  "step_of (Constructs cls p) = Some StConstruct"
| "step_of (AssignsData p w) = Some StAssignData"
| "step_of (AssignsRandoms p w) = Some StAssignRandoms"
| "step_of (SetsDensityContrast r) = Some StSetDensityContrast"
| "step_of Runs = Some StRun"
| "step_of (ReadsShifted t f) = Some StReadShifted"
| "step_of (WritesTable fn fmt ow) = Some StWrite"
| "step_of (ReadsTable fn) = None"
| "step_of (ReadsPositionsWeights fn m) = None"
| "step_of (MakesDir d) = None"

text \<open>
  The entries of \<^verbatim>\<open>randoms_fn\<close> as the specification counts them: a single path is one
  entry, a sequence of paths has one entry per element.
\<close>

fun entries :: "fn_arg \<Rightarrow> string list" where
  "entries (Scalar s) = [s]"
| "entries (Many fns) = fns"

text \<open>
  The randoms catalogs that a run has to produce: none under the convention \<^verbatim>\<open>'rsd'\<close>,
  otherwise one per pair of \<^verbatim>\<open>zip(randoms_fn, randoms_rec_fn)\<close>.
\<close>

definition outputs :: "rr_args \<Rightarrow> (string \<times> string) list" where
  "outputs a =
     (if convention a = ''rsd'' then []
      else zip (entries (randoms_fn a)) (iterate (randoms_rec_fn a)))"

text \<open>
  The order that the specification states: construct, assign data once, assign randoms
  once per entry of \<^verbatim>\<open>randoms_fn\<close>, set density contrast, run, and then, for the data and
  for each randoms output, read the shifted positions and (on the root rank) write.
\<close>

definition lifecycle :: "rr_args \<Rightarrow> step list" where
  "lifecycle a =
     [StConstruct, StAssignData]
     @ replicate (length (entries (randoms_fn a))) StAssignRandoms
     @ [StSetDensityContrast, StRun]
     @ concat (replicate (1 + length (outputs a))
         (StReadShifted # (if is_root a then [StWrite] else [])))"

subsection \<open>Shifted positions and saved catalogs\<close>

text \<open>
  Of a run, the reads of shifted positions with their field, and the catalogs written with
  their path, in the order in which they happen. The plan is what the specification
  states: the data are read first, with the field \<^verbatim>\<open>'rsd'\<close> under the convention
  \<^verbatim>\<open>'rsd'\<close> and \<^verbatim>\<open>'disp+rsd'\<close> otherwise, and saved (on the root rank) to
  \<^verbatim>\<open>data_rec_fn\<close>; then the randoms of each output are read, with \<^verbatim>\<open>'disp+rsd'\<close> under
  \<^verbatim>\<open>'recsym'\<close> and \<^verbatim>\<open>'disp'\<close> otherwise, and saved to their output file.
\<close>

datatype shift_event = ShiftedRead string | Saved string

fun shift_event_of :: "call_shape \<Rightarrow> shift_event option" where
  "shift_event_of (ReadsShifted t field) = Some (ShiftedRead field)"
| "shift_event_of (WritesTable fn fmt ow) = Some (Saved fn)"
| "shift_event_of (ReadsTable fn) = None"
| "shift_event_of (ReadsPositionsWeights fn m) = None"
| "shift_event_of (Constructs cls p) = None"
| "shift_event_of (AssignsData p w) = None"
| "shift_event_of (AssignsRandoms p w) = None"
| "shift_event_of (SetsDensityContrast r) = None"
| "shift_event_of Runs = None"
| "shift_event_of (MakesDir d) = None"

definition shift_plan :: "rr_args \<Rightarrow> shift_event list" where
  "shift_plan a =
     ShiftedRead (if convention a = ''rsd'' then ''rsd'' else ''disp+rsd'')
     # (if is_root a then [Saved (data_rec_fn a)] else [])
     @ concat (map (\<lambda>(fn, rec_fn).
          ShiftedRead (if convention a = ''recsym'' then ''disp+rsd'' else ''disp'')
          # (if is_root a then [Saved rec_fn] else [])) (outputs a))"

text \<open>The first argument of each read of shifted positions, in order.\<close>

fun target_of :: "call_shape \<Rightarrow> target_shape option" where
  "target_of (ReadsShifted t field) = Some t"
| "target_of (WritesTable fn fmt ow) = None"
| "target_of (ReadsTable fn) = None"
| "target_of (ReadsPositionsWeights fn m) = None"
| "target_of (Constructs cls p) = None"
| "target_of (AssignsData p w) = None"
| "target_of (AssignsRandoms p w) = None"
| "target_of (SetsDensityContrast r) = None"
| "target_of Runs = None"
| "target_of (MakesDir d) = None"

definition target_plan :: "rr_args \<Rightarrow> target_shape list" where
  "target_plan a =
     (if Reconstruction a = IterativeFFTParticleReconstruction then TagShape ''data''
      else ArrayShape (is_root a))
     # replicate (length (outputs a)) (ArrayShape (is_root a))"

subsection \<open>The convention \<^verbatim>\<open>'rsd'\<close>\<close>

text \<open>
  The calls that touch a catalog after the randoms are assigned: reading a table, reading
  positions with the mask, reading shifted positions, creating a directory, writing a table.
  Under the convention \<^verbatim>\<open>'rsd'\<close> the plan holds those of the data catalog only.
\<close>

fun catalog_io :: "call_shape \<Rightarrow> call_shape option" where
  "catalog_io (ReadsTable fn) = Some (ReadsTable fn)"
| "catalog_io (ReadsPositionsWeights fn return_mask) =
     (if return_mask then Some (ReadsPositionsWeights fn return_mask) else None)"
| "catalog_io (ReadsShifted t field) = Some (ReadsShifted t field)"
| "catalog_io (MakesDir d) = Some (MakesDir d)"
| "catalog_io (WritesTable fn fmt ow) = Some (WritesTable fn fmt ow)"
| "catalog_io (Constructs cls p) = None"
| "catalog_io (AssignsData p w) = None"
| "catalog_io (AssignsRandoms p w) = None"
| "catalog_io (SetsDensityContrast r) = None"
| "catalog_io Runs = None"

definition rsd_plan :: "rr_args \<Rightarrow> call_shape list" where
  "rsd_plan a =
     (if is_root a then [ReadsTable (data_fn a), ReadsPositionsWeights (data_fn a) True] else [])
     @ [ReadsShifted
          (if Reconstruction a = IterativeFFTParticleReconstruction then TagShape ''data''
           else ArrayShape (is_root a)) ''rsd'']
     @ (if is_root a
        then [MakesDir (dirname (data_rec_fn a)), WritesTable (data_rec_fn a) ''fits'' True]
        else [])"

subsection \<open>The data positions known to the reconstruction object\<close>

text \<open>The position array of the latest \<^verbatim>\<open>assign_data\<close> that was given one.\<close>

fun assigned_data :: "'p event list \<Rightarrow> 'p option" where
  "assigned_data [] = None"
| "assigned_data (e # es) =
     (case assigned_data es of
        Some p \<Rightarrow> Some p
      | None \<Rightarrow> (case e of AssignData p w \<Rightarrow> p | _ \<Rightarrow> None))"

section \<open>What each call of a run is made of\<close>

subsection \<open>Pre- and postconditions of programs\<close>

text \<open>
  \<open>hoare P m Q E\<close>: started in a world that satisfies \<open>P\<close>, the program \<open>m\<close> either
  returns a value \<open>x\<close> in a world that satisfies \<open>Q x\<close>, or raises in a world that
  satisfies \<open>E\<close>.
\<close>

definition hoare ::
  "('p world \<Rightarrow> bool) \<Rightarrow> ('p, 'a) prog \<Rightarrow> ('a \<Rightarrow> 'p world \<Rightarrow> bool) \<Rightarrow> ('p world \<Rightarrow> bool) \<Rightarrow> bool" where
  "hoare P m Q E =
     (\<forall>w. P w \<longrightarrow> (case fst (m w) of Inr x \<Rightarrow> Q x (snd (m w)) | Inl e \<Rightarrow> E (snd (m w))))"

text \<open>
  \<open>post m Q E w\<close>: the same for the single world \<open>w\<close>. Run from \<open>w\<close>, the program \<open>m\<close>
  returns a value \<open>x\<close> in a world that satisfies \<open>Q x\<close>, or raises in a world that
  satisfies \<open>E\<close>.
\<close>

definition post ::
  "('p, 'a) prog \<Rightarrow> ('a \<Rightarrow> 'p world \<Rightarrow> bool) \<Rightarrow> ('p world \<Rightarrow> bool) \<Rightarrow> 'p world \<Rightarrow> bool" where
  "post m Q E w = (case fst (m w) of Inr x \<Rightarrow> Q x (snd (m w)) | Inl e \<Rightarrow> E (snd (m w)))"

subsection \<open>Where positions and written catalogs come from\<close>

text \<open>
  What the script makes of an answer of the reader (lines 34-35, 52-53 and 81-82): the
  positions are the sky-to-Cartesian transform of the distance of the redshifts, the right
  ascensions and the declinations; the weights and the mask are the second and the third
  component of the answer.
\<close>

definition positions_of :: "'p env \<Rightarrow> rr_args \<Rightarrow> catalog_columns \<Rightarrow> 'p" where
  "positions_of env a r =
     (case r of ((ra, dec, z), wts, msk) \<Rightarrow>
        sky_to_cartesian env (distance a z) ra dec (dtype a))"

definition weights_of :: "catalog_columns \<Rightarrow> column" where
  "weights_of r = (case r of ((ra, dec, z), wts, msk) \<Rightarrow> wts)"

definition mask_of :: "catalog_columns \<Rightarrow> bool list" where
  "mask_of r = (case r of ((ra, dec, z), wts, msk) \<Rightarrow> msk)"

text \<open>The calls of lines 51 and 54: reading a randoms file without mask, and assigning it.\<close>

fun randoms_call :: "'p event \<Rightarrow> bool" where
  "randoms_call (ReadPositionsWeights fn return_mask r) = (\<not> return_mask)"
| "randoms_call (AssignRandoms p wts) = True"
| "randoms_call (TableRead fn r) = False"
| "randoms_call (Construct cls init) = False"
| "randoms_call (AssignData p wts) = False"
| "randoms_call (SetDensityContrast r) = False"
| "randoms_call Run = False"
| "randoms_call (ReadShiftedPositions tgt field r) = False"
| "randoms_call (Mkdir d) = False"
| "randoms_call (TableWrite fn t fmt ow) = False"

text \<open>The reads of shifted positions among the calls.\<close>

fun is_shift :: "'p event \<Rightarrow> bool" where
  "is_shift (ReadShiftedPositions tgt field r) = True"
| "is_shift (TableRead fn r) = False"
| "is_shift (ReadPositionsWeights fn return_mask r) = False"
| "is_shift (Construct cls init) = False"
| "is_shift (AssignData p wts) = False"
| "is_shift (AssignRandoms p wts) = False"
| "is_shift (SetDensityContrast r) = False"
| "is_shift Run = False"
| "is_shift (Mkdir d) = False"
| "is_shift (TableWrite fn t fmt ow) = False"

text \<open>
  \<open>data_read\<close>: the calls \<open>es\<close> begin with the reading of the data catalog, the table
  \<open>t\<close> and the answer \<open>r\<close> of the reader with its mask, and no shifted positions have been
  read yet. \<open>randoms_read\<close>: the last two calls of \<open>es\<close> are the reading of the table \<open>t\<close>
  of the file \<open>fn\<close> and the answer \<open>r\<close> of the reader, with its mask, for that file.
\<close>

definition data_read :: "rr_args \<Rightarrow> 'p event list \<Rightarrow> table \<Rightarrow> catalog_columns \<Rightarrow> bool" where
  "data_read a es t r =
     (take 2 es = [TableRead (data_fn a) (Some t),
                   ReadPositionsWeights (data_fn a) True (Inr r)]
      \<and> filter is_shift es = [])"

definition randoms_read :: "'p event list \<Rightarrow> string \<Rightarrow> table \<Rightarrow> catalog_columns \<Rightarrow> bool" where
  "randoms_read es fn t r =
     (\<exists>h. es = h @ [TableRead fn (Some t), ReadPositionsWeights fn True (Inr r)])"

text \<open>
  \<open>catalog_source\<close>: after the calls \<open>h\<close>, shifted positions asked for with the first
  argument \<open>tgt\<close> are those of the catalog read from \<open>src\<close>, to be written to \<open>fn\<close>.
  Either \<open>src\<close> is the data file, read at the start of the run, \<open>fn\<close> is
  \<^verbatim>\<open>data_rec_fn\<close>, and \<open>tgt\<close> is the array of the data positions or the tag \<^verbatim>\<open>'data'\<close>
  with these positions assigned as data; or \<open>src\<close> is a randoms file, read in the two calls
  just before, \<open>fn\<close> is its output file, and \<open>tgt\<close> is the array of its positions.
\<close>

definition catalog_source ::
  "'p env \<Rightarrow> rr_args \<Rightarrow> 'p event list \<Rightarrow> 'p target \<Rightarrow> string \<Rightarrow> string \<Rightarrow> table
     \<Rightarrow> catalog_columns \<Rightarrow> bool" where
  "catalog_source env a h tgt src fn t r =
     (data_read a h t r \<and> src = data_fn a \<and> fn = data_rec_fn a
        \<and> (tgt = Array (Some (positions_of env a r))
            \<or> tgt = Tag ''data'' \<and> assigned_data h = Some (positions_of env a r))
      \<or> randoms_read h src t r \<and> (src, fn) \<in> set (outputs a)
        \<and> tgt = Array (Some (positions_of env a r)))"

text \<open>
  \<open>saved\<close>: the table \<open>t'\<close> is the catalog \<open>cat\<close> after the three column assignments of
  lines 69 and 86, from the sky coordinates of the shifted positions \<open>rec\<close>.
\<close>

definition saved :: "'p env \<Rightarrow> rr_args \<Rightarrow> table \<Rightarrow> 'p \<Rightarrow> table \<Rightarrow> bool" where
  "saved env a cat rec t' =
     (case cartesian_to_sky env rec of (d, ra, dec) \<Rightarrow>
        \<exists>c1 c2. set_column cat ''RA'' ra = Inr c1
          \<and> set_column c1 ''DEC'' dec = Inr c2
          \<and> set_column c2 ''Z'' (DistanceToRedshift env (distance a) d) = Inr t')"

text \<open>
  What holds of a call, given the calls \<open>es\<close> made before it.
  The constructor, if it is given positions, is the third call of the run, after the two
  that read the data catalog, and the positions are those of the data; \<^verbatim>\<open>assign_data\<close>
  is the fourth, with the positions and the weights of the data.
  \<^verbatim>\<open>assign_randoms\<close> gets the positions and the weights of the answer that the reader
  gave in the call just before.
  A read of shifted positions records what the reconstruction object answers after the
  calls \<open>es\<close>; an array that it is asked about holds the positions of the data, before any
  other such read, or those of the randoms file read in the two calls just before.
  A table is written in the FITS format with overwrite, right after the read of the
  shifted positions of its catalog and the creation of the directory of its path, and it
  is the table read from the source file, restricted to the mask of the reader, and saved
  with these shifted positions.
\<close>

fun event_ok :: "'p env \<Rightarrow> rr_args \<Rightarrow> 'p event list \<Rightarrow> 'p event \<Rightarrow> bool" where
  "event_ok env a es (Construct cls init) =
     (init_positions init = None
      \<or> (\<exists>t r. es = [TableRead (data_fn a) (Some t),
                      ReadPositionsWeights (data_fn a) True (Inr r)]
            \<and> init_positions init = Some (positions_of env a r)))"
| "event_ok env a es (AssignData q wts) =
     (q = None \<and> wts = None
      \<or> (\<exists>t r c. es = [TableRead (data_fn a) (Some t),
                        ReadPositionsWeights (data_fn a) True (Inr r), c]
            \<and> q = Some (positions_of env a r) \<and> wts = Some (weights_of r)))"
| "event_ok env a es (AssignRandoms q wts) =
     (q = None \<and> wts = None
      \<or> (\<exists>h fn r. es = h @ [ReadPositionsWeights fn False (Inr r)]
            \<and> q = Some (positions_of env a r) \<and> wts = Some (weights_of r)))"
| "event_ok env a es (ReadShiftedPositions tgt field rec) =
     (rec = read_shifted_positions env es tgt field
      \<and> (\<forall>p. tgt = Array (Some p) \<longrightarrow>
            (\<exists>t r. data_read a es t r \<and> p = positions_of env a r)
            \<or> (\<exists>fn t r. randoms_read es fn t r \<and> p = positions_of env a r)))"
| "event_ok env a es (TableWrite fn t' fmt ow) =
     (fmt = ''fits'' \<and> ow
      \<and> (\<exists>h tgt field rec src t r cat.
            es = h @ [ReadShiftedPositions tgt field rec, Mkdir (dirname fn)]
            \<and> catalog_source env a h tgt src fn t r
            \<and> select_rows t (mask_of r) = Inr cat
            \<and> saved env a cat rec t'))"
| "event_ok env a es (TableRead fn r) = True"
| "event_ok env a es (ReadPositionsWeights fn return_mask r) = True"
| "event_ok env a es (SetDensityContrast r) = True"
| "event_ok env a es Run = True"
| "event_ok env a es (Mkdir d) = True"

text \<open>
  \<open>oks env a es new\<close>: each of the calls \<open>new\<close>, made after the calls \<open>es\<close>, is as
  \<open>event_ok\<close> says. \<open>all_ok\<close>: every call of \<open>es\<close> is, given the calls before it.
\<close>

fun oks :: "'p env \<Rightarrow> rr_args \<Rightarrow> 'p event list \<Rightarrow> 'p event list \<Rightarrow> bool" where
  "oks env a es [] = True"
| "oks env a es (e # new) = (event_ok env a es e \<and> oks env a (es @ [e]) new)"

definition all_ok :: "'p env \<Rightarrow> rr_args \<Rightarrow> 'p event list \<Rightarrow> bool" where
  "all_ok env a es = (\<forall>es1 e es2. es = es1 @ e # es2 \<longrightarrow> event_ok env a es1 e)"

text \<open>
  Two tables have the same other columns when every column but RA, DEC and Z has the same
  cells in the same row order, and these columns stand in the same order.
\<close>

definition same_other_columns :: "table \<Rightarrow> table \<Rightarrow> bool" where
  "same_other_columns t t' =
     ((\<forall>name. name \<notin> {''RA'', ''DEC'', ''Z''} \<longrightarrow> get_column t' name = get_column t name)
      \<and> filter (\<lambda>name. name \<notin> {''RA'', ''DEC'', ''Z''}) (colnames t')
          = filter (\<lambda>name. name \<notin> {''RA'', ''DEC'', ''Z''}) (colnames t))"

subsection \<open>What only the root rank does\<close>

text \<open>
  The calls that are reserved to the root rank: every access to a catalog file or to the
  disk, and handing positions or weights other than \<^verbatim>\<open>None\<close> to the constructor or to an
  assign call.
\<close>

fun root_only :: "'p event \<Rightarrow> bool" where
  "root_only (TableRead fn r) = True"
| "root_only (ReadPositionsWeights fn return_mask r) = True"
| "root_only (Mkdir d) = True"
| "root_only (TableWrite fn t fmt ow) = True"
| "root_only (Construct cls init) = (init_positions init \<noteq> None)"
| "root_only (AssignData p wts) = (p \<noteq> None \<or> wts \<noteq> None)"
| "root_only (AssignRandoms p wts) = (p \<noteq> None \<or> wts \<noteq> None)"
| "root_only (ReadShiftedPositions tgt field r) = False"
| "root_only (SetDensityContrast r) = False"
| "root_only Run = False"

fun root_only_shape :: "call_shape \<Rightarrow> bool" where
  "root_only_shape (ReadsTable fn) = True"
| "root_only_shape (ReadsPositionsWeights fn return_mask) = True"
| "root_only_shape (MakesDir d) = True"
| "root_only_shape (WritesTable fn fmt ow) = True"
| "root_only_shape (Constructs cls p) = p"
| "root_only_shape (AssignsData p w) = (p \<or> w)"
| "root_only_shape (AssignsRandoms p w) = (p \<or> w)"
| "root_only_shape (ReadsShifted t field) = False"
| "root_only_shape (SetsDensityContrast r) = False"
| "root_only_shape Runs = False"

section \<open>An example run\<close>

text \<open>
  A small environment on which the functions can be evaluated. Positions are kept as the
  triple of distance, right ascension and declination; the distance is twice the redshift;
  the reader selects the rows of positive redshift and gives every selected row the
  weight one; the reconstruction returns the positions it is given, and for the tag
  \<^verbatim>\<open>'data'\<close> the data positions it was assigned.
\<close>

definition demo_reader :: "(string \<rightharpoonup> table) \<Rightarrow> string \<Rightarrow> bool \<Rightarrow> error + catalog_columns" where
  "demo_reader files fn return_mask =
     (case files fn of
        None \<Rightarrow> Inl FileNotFoundError
      | Some t \<Rightarrow>
          (case (get_column t ''RA'', get_column t ''DEC'', get_column t ''Z'') of
             (Some ra, Some dec, Some z) \<Rightarrow>
               (let msk = map (\<lambda>x. 0 < x) z
                in Inr ((mask_column msk ra, mask_column msk dec, mask_column msk z),
                        map (\<lambda>x. 1) (mask_column msk z), msk))
           | _ \<Rightarrow> Inl KeyError))"

definition demo_env :: "(column \<times> column \<times> column) env" where
  "demo_env =
     \<lparr>read_positions_weights_cutsky = demo_reader,
      sky_to_cartesian = (\<lambda>d ra dec dt. (d, ra, dec)),
      cartesian_to_sky = (\<lambda>p. p),
      DistanceToRedshift = (\<lambda>df. map (\<lambda>x. x / 2)),
      read_shifted_positions =
        (\<lambda>h tgt fld. case tgt of
            Array (Some p) \<Rightarrow> p
          | Array None \<Rightarrow> ([], [], [])
          | Tag s \<Rightarrow> (case assigned_data h of Some p \<Rightarrow> p | None \<Rightarrow> ([], [], [])))\<rparr>"

definition demo_table :: table where
  "demo_table = [(''RA'', [10, 20]), (''W'', [1, 2]), (''DEC'', [-5, 5]), (''Z'', [0, 1])]"

definition demo_args :: rr_args where
  "demo_args =
     \<lparr>Reconstruction = IterativeFFTReconstruction, distance = map (\<lambda>z. 2 * z),
      data_fn = ''in/d'', randoms_fn = Many [''in/r''], data_rec_fn = ''out/d'',
      randoms_rec_fn = Many [''out/r''], f_growth = 0.8, bias = 1.2, boxsize = None,
      nmesh = None, cellsize = 4, smoothing_radius = 15, nthreads = 64,
      convention = ''reciso'', dtype = ''f8'', mpicomm = None\<rparr>"

definition demo_files :: "string \<rightharpoonup> table" where
  "demo_files = [''in/d'' \<mapsto> demo_table, ''in/r'' \<mapsto> demo_table]"

text \<open>The same call for the particle variant under the convention \<^verbatim>\<open>'rsd'\<close>.\<close>

definition demo_args_rsd :: rr_args where
  "demo_args_rsd =
     demo_args\<lparr>Reconstruction := IterativeFFTParticleReconstruction, convention := ''rsd''\<rparr>"

text \<open>The same call on the rank 1 of a communicator.\<close>

definition demo_args_rank1 :: rr_args where
  "demo_args_rank1 = demo_args\<lparr>mpicomm := Some 1\<rparr>"

text \<open>A parser for the three number literals of the example, raising on any other string.\<close>

definition demo_float :: "string \<Rightarrow> error + real" where
  "demo_float s =
     (if s = ''0.8'' then Inr 0.8
      else if s = ''0.95'' then Inr 0.95
      else if s = ''1.1'' then Inr 1.1
      else Inl ValueError)"

text \<open>
  A survey with two randoms catalogs that differ from the data catalog and from each
  other, and a reconstruction that shifts: under every field it moves the distances by
  two, the right ascensions by one and the declinations by minus one.
\<close>

definition demo_shift :: "column \<times> column \<times> column \<Rightarrow> column \<times> column \<times> column" where
  "demo_shift p =
     (case p of (d, ra, dec) \<Rightarrow>
        (map (\<lambda>x. x + 2) d, map (\<lambda>x. x + 1) ra, map (\<lambda>x. x - 1) dec))"

definition survey_env :: "(column \<times> column \<times> column) env" where
  "survey_env =
     demo_env\<lparr>read_shifted_positions :=
        (\<lambda>h tgt fld. case tgt of
            Array (Some p) \<Rightarrow> demo_shift p
          | Array None \<Rightarrow> ([], [], [])
          | Tag s \<Rightarrow> (case assigned_data h of Some p \<Rightarrow> demo_shift p | None \<Rightarrow> ([], [], [])))\<rparr>"

definition randoms_a :: table where
  "randoms_a = [(''Z'', [2, 0, 3]), (''RA'', [30, 40, 50]), (''DEC'', [1, 2, 3])]"

definition randoms_b :: table where
  "randoms_b = [(''RA'', [60]), (''DEC'', [7]), (''Z'', [4]), (''ID'', [9])]"

definition survey_files :: "string \<rightharpoonup> table" where
  "survey_files = [''in/d'' \<mapsto> demo_table, ''in/r1'' \<mapsto> randoms_a, ''in/r2'' \<mapsto> randoms_b]"

definition survey_args :: rr_args where
  "survey_args =
     demo_args\<lparr>randoms_fn := Many [''in/r1'', ''in/r2''],
               randoms_rec_fn := Many [''out/r1'', ''out/r2'']\<rparr>"

text \<open>The same survey with a single randoms path, not wrapped in a list.\<close>

definition scalar_args :: rr_args where
  "scalar_args =
     demo_args\<lparr>randoms_fn := Scalar ''in/r1'', randoms_rec_fn := Many [''out/r1'']\<rparr>"





section \<open>Properties of the lookup tables and of argument resolution\<close>

lemma parse_floats_length:
  "parse_floats float_of ss = Inr vs \<Longrightarrow> length vs = length ss"
  by (induction ss arbitrary: vs) (auto split: sum.splits)

lemma parse_floats_nth:
  "parse_floats float_of ss = Inr vs \<Longrightarrow> i < length ss \<Longrightarrow> float_of (ss ! i) = Inr (vs ! i)"
proof (induction ss arbitrary: vs i)
  case Nil
  then show ?case by simp
next
  case (Cons s ss)
  then show ?case
    by (cases i) (auto split: sum.splits)
qed

text \<open>
  C3. The bias handed to the reconstruction is the value of \<^verbatim>\<open>--bias\<close> when one is
  supplied and \<open>get_bias\<close> of the tracer otherwise; \<open>get_bias\<close> returns 1.2 for a tracer
  starting with ELG, 2.07 for QSO, 1.99 for LRG and 1.5 for BGS, and two tracers with the
  same first three characters get the same bias.
\<close>

lemma get_bias_take3:
  "get_bias tracer =
     (if take 3 tracer = ''ELG'' then 1.2
      else if take 3 tracer = ''QSO'' then 2.07
      else if take 3 tracer = ''LRG'' then 1.99
      else if take 3 tracer = ''BGS'' then 1.5
      else 1.2)"
  by (simp add: get_bias_def startswith_def numeral_3_eq_3)

theorem bias_resolution:
  "resolve_bias (Some b) tracer = b
   \<and> resolve_bias None tracer = get_bias tracer
   \<and> (startswith tracer ''ELG'' \<longrightarrow> get_bias tracer = 1.2)
   \<and> (startswith tracer ''QSO'' \<longrightarrow> get_bias tracer = 2.07)
   \<and> (startswith tracer ''LRG'' \<longrightarrow> get_bias tracer = 1.99)
   \<and> (startswith tracer ''BGS'' \<longrightarrow> get_bias tracer = 1.5)
   \<and> (take 3 tracer = take 3 tracer' \<longrightarrow> get_bias tracer = get_bias tracer')"
proof -
  have same: "get_bias tracer = get_bias tracer'" if "take 3 tracer = take 3 tracer'"
    by (simp only: get_bias_take3 [of tracer] get_bias_take3 [of tracer'] that)
  have vals: "(startswith tracer ''ELG'' \<longrightarrow> get_bias tracer = 1.2)
      \<and> (startswith tracer ''QSO'' \<longrightarrow> get_bias tracer = 2.07)
      \<and> (startswith tracer ''LRG'' \<longrightarrow> get_bias tracer = 1.99)
      \<and> (startswith tracer ''BGS'' \<longrightarrow> get_bias tracer = 1.5)"
    by (auto simp: get_bias_def startswith_def)
  have res: "resolve_bias (Some b) tracer = b \<and> resolve_bias None tracer = get_bias tracer"
    by (simp add: resolve_bias_def)
  from same vals res show ?thesis
    by blast
qed

theorem bias_resolution_witness:
  "resolve_bias (Some 3) ''ELG'' = 3
   \<and> resolve_bias None ''QSO'' = 2.07
   \<and> startswith ''ELG_LOP'' ''ELG'' \<and> get_bias ''ELG_LOP'' = 1.2
   \<and> startswith ''QSO'' ''QSO'' \<and> get_bias ''QSO'' = 2.07
   \<and> startswith ''LRG_main'' ''LRG'' \<and> get_bias ''LRG_main'' = 1.99
   \<and> startswith ''BGS_BRIGHT'' ''BGS'' \<and> get_bias ''BGS_BRIGHT'' = 1.5
   \<and> take 3 ''LRG_main'' = take 3 ''LRGx'' \<and> get_bias ''LRG_main'' = get_bias ''LRGx''"
  using bias_resolution [of 3 "''ELG''" "''ELG''"]
    bias_resolution [of 0 "''QSO''" "''QSO''"]
    bias_resolution [of 0 "''ELG_LOP''" "''ELG_LOP''"]
    bias_resolution [of 0 "''LRG_main''" "''LRGx''"]
    bias_resolution [of 0 "''BGS_BRIGHT''" "''BGS_BRIGHT''"]
  by (simp add: startswith_def)

text \<open>
  C9. \<open>get_bias\<close> has no failing branch: on every string it returns a number, and on a
  tracer that starts with none of ELG, QSO, LRG, BGS it returns the fallback 1.2, which is
  also the value for ELG.
\<close>

theorem get_bias_fallback:
  "\<not> startswith tracer ''ELG'' \<Longrightarrow> \<not> startswith tracer ''QSO'' \<Longrightarrow>
   \<not> startswith tracer ''LRG'' \<Longrightarrow> \<not> startswith tracer ''BGS'' \<Longrightarrow>
   get_bias tracer = 1.2 \<and> get_bias tracer = get_bias ''ELG''"
  by (simp add: get_bias_def startswith_def)

theorem get_bias_fallback_witness:
  "\<not> startswith ''elg'' ''ELG'' \<and> \<not> startswith ''elg'' ''QSO''
   \<and> \<not> startswith ''elg'' ''LRG'' \<and> \<not> startswith ''elg'' ''BGS''
   \<and> get_bias ''elg'' = 1.2 \<and> get_bias ''elg'' = get_bias ''ELG''"
proof -
  have h: "\<not> startswith ''elg'' ''ELG''" "\<not> startswith ''elg'' ''QSO''"
    "\<not> startswith ''elg'' ''LRG''" "\<not> startswith ''elg'' ''BGS''"
    by (simp_all add: startswith_def)
  from get_bias_fallback [OF h] h show ?thesis by simp
qed

text \<open>
  C7, as stated, fails: \<^verbatim>\<open>--zlim\<close> is declared with \<^verbatim>\<open>nargs='*'\<close>, so it can be supplied
  with no value at all; then the resolved list is empty, indexing it raises
  \<^verbatim>\<open>IndexError\<close>, and no redshift range is processed.
\<close>

theorem zlim_empty_counterexample:
  "resolve_zlims (\<lambda>s. Inl ValueError) (\<lambda>t. [0.8, 1.1]) ''ELG'' (Some []) = Inl IndexError"
  by (simp add: resolve_zlims_def first_last_def)

text \<open>
  C7, amended. When \<^verbatim>\<open>--zlim\<close> is supplied, its values are parsed as floats in order;
  when it is absent, the defaults of \<open>get_z_cutsky\<close> for the tracer are taken. Whenever
  every supplied value parses and the resolved list is not empty, exactly one range is
  processed: the pair of the first and the last resolved value, whatever lies between.
\<close>

theorem zlim_resolution:
  "(parse_floats float_of ss = Inr vs \<and> vs \<noteq> [] \<longrightarrow>
      length vs = length ss
      \<and> (\<forall>i<length ss. float_of (ss ! i) = Inr (vs ! i))
      \<and> resolve_zlims float_of get_z_cutsky tracer (Some ss) = Inr [(hd vs, last vs)])
   \<and> (get_z_cutsky tracer \<noteq> [] \<longrightarrow>
      resolve_zlims float_of get_z_cutsky tracer None
        = Inr [(hd (get_z_cutsky tracer), last (get_z_cutsky tracer))])
   \<and> (float_of a = Inr x \<and> parse_floats float_of mid = Inr ms \<and> float_of c = Inr y \<longrightarrow>
      resolve_zlims float_of get_z_cutsky tracer (Some (a # mid @ [c])) = Inr [(x, y)])"
proof (intro conjI impI allI)
  assume h: "parse_floats float_of ss = Inr vs \<and> vs \<noteq> []"
  then have p: "parse_floats float_of ss = Inr vs"
    by simp
  from p show "length vs = length ss"
    by (rule parse_floats_length)
  show "float_of (ss ! i) = Inr (vs ! i)" if "i < length ss" for i
    using p that by (rule parse_floats_nth)
  from h show "resolve_zlims float_of get_z_cutsky tracer (Some ss) = Inr [(hd vs, last vs)]"
    by (simp add: resolve_zlims_def first_last_def)
next
  assume "get_z_cutsky tracer \<noteq> []"
  then show "resolve_zlims float_of get_z_cutsky tracer None
        = Inr [(hd (get_z_cutsky tracer), last (get_z_cutsky tracer))]"
    by (simp add: resolve_zlims_def first_last_def)
next
  assume h: "float_of a = Inr x \<and> parse_floats float_of mid = Inr ms \<and> float_of c = Inr y"
  have "parse_floats float_of (xs @ [c]) = Inr (zs @ [y])"
    if "parse_floats float_of xs = Inr zs" for xs zs
    using that h by (induction xs arbitrary: zs) (auto split: sum.splits)
  with h have "parse_floats float_of (a # mid @ [c]) = Inr (x # ms @ [y])"
    by simp
  then show "resolve_zlims float_of get_z_cutsky tracer (Some (a # mid @ [c])) = Inr [(x, y)]"
    by (simp add: resolve_zlims_def first_last_def)
qed

theorem zlim_resolution_witness:
  "parse_floats demo_float [''0.8'', ''0.95'', ''1.1''] = Inr [0.8, 0.95, 1.1]
   \<and> resolve_zlims demo_float (\<lambda>t. [0.8, 1.1]) ''ELG'' (Some [''0.8'', ''0.95'', ''1.1''])
       = Inr [(0.8, 1.1)]
   \<and> resolve_zlims demo_float (\<lambda>t. [0.8, 1.1]) ''ELG'' None = Inr [(0.8, 1.1)]"
proof -
  have p: "parse_floats demo_float [''0.8'', ''0.95'', ''1.1''] = Inr [0.8, 0.95, 1.1]"
    by (simp add: demo_float_def)
  have m: "parse_floats demo_float [''0.95''] = Inr [0.95]"
    by (simp add: demo_float_def)
  have a: "demo_float ''0.8'' = Inr 0.8" and c: "demo_float ''1.1'' = Inr 1.1"
    by (simp_all add: demo_float_def)
  from zlim_resolution [where float_of = demo_float and ss = "[''0.8'', ''0.95'', ''1.1'']"
      and vs = "[0.8, 0.95, 1.1]" and get_z_cutsky = "\<lambda>t. [0.8, 1.1]" and tracer = "''ELG''"
      and a = "''0.8''" and x = "0.8" and mid = "[''0.95'']" and ms = "[0.95]"
      and c = "''1.1''" and y = "1.1"] p m a c
  show ?thesis
    by simp
qed

section \<open>The calls of a run\<close>

text \<open>
  Every program of the model appends to the trace. The rules below compose what the
  primitives append, in the order of the statements of the source.
\<close>

lemma wrap_scalar_entries: "wrap_scalar x = entries x"
  by (cases x) (simp_all add: wrap_scalar_def)

lemma traces_return: "P x \<Longrightarrow> traces (return x) [] P"
  by (simp add: traces_def return_def)

lemma traces_raise: "traces (raise e) cs P"
  by (simp add: traces_def raise_def)

lemma traces_lift: "(\<And>x. r = Inr x \<Longrightarrow> P x) \<Longrightarrow> traces (lift r) [] P"
  by (cases r) (simp_all add: lift_def traces_return traces_raise)

lemma traces_call: "P () \<Longrightarrow> traces (call e) [shape e] P"
  by (simp add: traces_def call_def log_event_def)

lemma traces_table_read: "traces (table_read fn) [ReadsTable fn] (\<lambda>t. True)"
  by (simp add: traces_def table_read_def log_event_def split: option.splits)

lemma traces_table_write: "traces (table_write t fn fmt ow) [WritesTable fn fmt ow] (\<lambda>u. True)"
  by (simp add: traces_def table_write_def log_event_def)

lemma traces_read_positions_weights:
  "traces (read_positions_weights env fn return_mask) [ReadsPositionsWeights fn return_mask] (\<lambda>r. True)"
  by (simp add: traces_def read_positions_weights_def log_event_def Let_def split: sum.splits)

lemma traces_read_shifted:
  "traces (read_shifted env tgt field)
     [ReadsShifted (case tgt of Tag s \<Rightarrow> TagShape s | Array p \<Rightarrow> ArrayShape (p \<noteq> None)) field] (\<lambda>r. True)"
  by (cases tgt) (simp_all add: traces_def read_shifted_def log_event_def Let_def)

lemma tracesD:
  "traces m cs P \<Longrightarrow> \<exists>es. trace (snd (m w)) = trace w @ es \<and>
        (case fst (m w) of
           Inr x \<Rightarrow> map shape es = cs \<and> P x
         | Inl e \<Rightarrow> prefix (map shape es) cs)"
  unfolding traces_def by (rule spec)

lemma bind_Inl: "fst (m w) = Inl e \<Longrightarrow> bind m k w = (Inl e, snd (m w))"
  by (cases "m w") (simp add: bind_def)

lemma bind_Inr: "fst (m w) = Inr x \<Longrightarrow> bind m k w = k x (snd (m w))"
  by (cases "m w") (simp add: bind_def)

lemma traces_bind:
  assumes m: "traces m cs P" and k: "\<And>x. P x \<Longrightarrow> traces (k x) ds Q"
  shows "traces (bind m k) (cs @ ds) Q"
  unfolding traces_def
proof
  fix w
  from tracesD [OF m, of w] obtain es where es: "trace (snd (m w)) = trace w @ es"
    and r: "case fst (m w) of Inr x \<Rightarrow> map shape es = cs \<and> P x | Inl e \<Rightarrow> prefix (map shape es) cs"
    by (elim exE conjE)
  show "\<exists>es. trace (snd (bind m k w)) = trace w @ es \<and>
        (case fst (bind m k w) of
           Inr x \<Rightarrow> map shape es = cs @ ds \<and> Q x
         | Inl e \<Rightarrow> prefix (map shape es) (cs @ ds))"
  proof (cases "fst (m w)")
    case (Inl e)
    from r Inl have "prefix (map shape es) (cs @ ds)"
      by (simp add: prefix_prefix)
    with es show ?thesis
      using bind_Inl [of m w e k] Inl by simp
  next
    case (Inr x)
    from r Inr have cs: "map shape es = cs" and px: "P x"
      by simp_all
    from tracesD [OF k [OF px], of "snd (m w)"] obtain es'
      where es': "trace (snd (k x (snd (m w)))) = trace (snd (m w)) @ es'"
      and r': "case fst (k x (snd (m w))) of Inr y \<Rightarrow> map shape es' = ds \<and> Q y
               | Inl e \<Rightarrow> prefix (map shape es') ds"
      by (elim exE conjE)
    have "trace (snd (bind m k w)) = trace w @ (es @ es')"
      using bind_Inr [of m w x k] Inr by (simp add: es es')
    moreover have "case fst (bind m k w) of
           Inr y \<Rightarrow> map shape (es @ es') = cs @ ds \<and> Q y
         | Inl e \<Rightarrow> prefix (map shape (es @ es')) (cs @ ds)"
      using r' cs bind_Inr [of m w x k] Inr by (simp split: sum.splits)
    ultimately show ?thesis
      by blast
  qed
qed

lemma traces_then_call:
  "c = shape e \<Longrightarrow> traces (k ()) ds Q \<Longrightarrow> traces (bind (call e) k) (c # ds) Q"
  using traces_bind [OF traces_call [of "\<lambda>u. True" e], of k ds Q] by simp

lemma traces_then_lift:
  "(\<And>x. r = Inr x \<Longrightarrow> traces (k x) ds Q) \<Longrightarrow> traces (bind (lift r) k) ds Q"
  using traces_bind [OF traces_lift [of r "\<lambda>x. r = Inr x"], of k ds Q] by simp

lemma traces_then_table_read:
  "(\<And>t. traces (k t) ds Q) \<Longrightarrow> traces (bind (table_read fn) k) (ReadsTable fn # ds) Q"
  using traces_bind [OF traces_table_read, of k ds Q] by simp

lemma traces_then_table_write:
  "traces (k ()) ds Q \<Longrightarrow>
   traces (bind (table_write t fn fmt ow) k) (WritesTable fn fmt ow # ds) Q"
  using traces_bind [OF traces_table_write, of k ds Q] by simp

lemma traces_then_read_positions_weights:
  "(\<And>r. traces (k r) ds Q) \<Longrightarrow>
   traces (bind (read_positions_weights env fn return_mask) k)
     (ReadsPositionsWeights fn return_mask # ds) Q"
  using traces_bind [OF traces_read_positions_weights, of k ds Q] by simp

lemma traces_then_read_shifted:
  "c = ReadsShifted (case tgt of Tag s \<Rightarrow> TagShape s | Array p \<Rightarrow> ArrayShape (p \<noteq> None)) field
   \<Longrightarrow> (\<And>r. traces (k r) ds Q) \<Longrightarrow> traces (bind (read_shifted env tgt field) k) (c # ds) Q"
  using traces_bind [OF traces_read_shifted, of k ds Q] by simp

lemma traces_save_catalog:
  "traces (save_catalog env a c rec fn) (save_shapes fn) (\<lambda>t. True)"
  unfolding save_catalog_def save_shapes_def split_def
  apply (rule traces_then_lift)
  apply (rule traces_then_lift)
  apply (rule traces_then_lift)
  apply (rule traces_then_call, simp)
  apply (rule traces_then_table_write)
  apply (rule traces_return)
  apply simp
  done

lemma traces_load_data:
  "traces (load_data env a) (load_shapes a)
     (\<lambda>x. (fst x \<noteq> None) = is_root a \<and> (fst (snd x) \<noteq> None) = is_root a
        \<and> (snd (snd x) \<noteq> None) = is_root a)"
proof (cases "is_root a")
  case True
  show ?thesis
    unfolding load_data_def load_shapes_def split_def
    apply (simp only: True if_True)
    apply (rule traces_then_table_read)
    apply (rule traces_then_read_positions_weights)
    apply (rule traces_then_lift)
    apply (rule traces_return)
    apply simp
    done
next
  case False
  then show ?thesis
    unfolding load_data_def load_shapes_def
    by (simp add: traces_return)
qed

lemma assign_shapes_Cons:
  "assign_shapes a (fn # fns) =
     (if is_root a then [ReadsPositionsWeights fn False] else [])
     @ AssignsRandoms (is_root a) (is_root a) # assign_shapes a fns"
  by (simp add: assign_shapes_def)

lemma traces_assign_randoms_loop:
  "(\<not> is_root a \<Longrightarrow> fst s = None \<and> snd s = None) \<Longrightarrow>
   traces (assign_randoms_loop env a fns s) (assign_shapes a fns)
     (\<lambda>s'. \<not> is_root a \<longrightarrow> fst s' = None)"
proof (induction fns arbitrary: s)
  case Nil
  then show ?case
    by (cases s) (auto simp: assign_shapes_def intro: traces_return)
next
  case (Cons fn fns)
  obtain rp rw where s: "s = (rp, rw)"
    by (cases s)
  let ?rest = "\<lambda>(randoms_positions, randoms_weights).
           bind (call (AssignRandoms randoms_positions randoms_weights)) (\<lambda>_.
           assign_randoms_loop env a fns (randoms_positions, randoms_weights))"
  let ?Q = "\<lambda>s'. \<not> is_root a \<longrightarrow> fst s' = (None :: 'a option)"
  show ?case
  proof (cases "is_root a")
    case True
    let ?step = "bind (read_positions_weights env fn False) (\<lambda>((ra, dec, z), randoms_weights, msk).
             return (Some (sky_to_cartesian env (distance a z) ra dec (dtype a)),
                     Some randoms_weights))"
    have step: "traces ?step [ReadsPositionsWeights fn False] (\<lambda>x. fst x \<noteq> None \<and> snd x \<noteq> None)"
      unfolding split_def
      apply (rule traces_then_read_positions_weights)
      apply (rule traces_return)
      apply simp
      done
    have rest: "traces (?rest x) (AssignsRandoms True True # assign_shapes a fns) ?Q"
      if "fst x \<noteq> None \<and> snd x \<noteq> None" for x
      unfolding split_def
      apply (rule traces_then_call)
      using that apply (cases x) apply simp
      apply (rule Cons.IH)
      using True apply simp
      done
    have "traces (bind ?step ?rest)
       ([ReadsPositionsWeights fn False] @ AssignsRandoms True True # assign_shapes a fns) ?Q"
      by (rule traces_bind [OF step rest])
    then show ?thesis
      using True by (simp add: s assign_shapes_Cons)
  next
    case False
    with Cons.prems s have n: "rp = None" "rw = None"
      by simp_all
    have rest: "traces (?rest x) (AssignsRandoms False False # assign_shapes a fns) ?Q"
      if "x = (None, None)" for x
      unfolding that split_def
      apply (rule traces_then_call)
       apply simp
      apply (rule Cons.IH)
      apply simp
      done
    have "traces (bind (return (rp, rw)) ?rest)
       ([] @ AssignsRandoms False False # assign_shapes a fns) ?Q"
      by (rule traces_bind [OF traces_return [of "\<lambda>x. x = (None, None)"] rest]) (simp_all add: n)
    then show ?thesis
      using False by (simp add: s assign_shapes_Cons)
  qed
qed

lemma shift_shapes_Cons:
  "shift_shapes a field ((fn, rec_fn) # pairs) =
     (if is_root a then [ReadsTable fn, ReadsPositionsWeights fn True] else [])
     @ ReadsShifted (ArrayShape (is_root a)) field
     # (if is_root a then save_shapes rec_fn else []) @ shift_shapes a field pairs"
  by (simp add: shift_shapes_def)

lemma traces_save_case:
  "catalog \<noteq> None \<Longrightarrow>
   traces (case catalog of
             None \<Rightarrow> raise UnboundLocalError
           | Some c \<Rightarrow> bind (save_catalog env a c rec rec_fn) (\<lambda>c. return (Some c)))
     (save_shapes rec_fn) (\<lambda>c. True)"
proof -
  have "traces (bind (save_catalog env a c rec rec_fn) (\<lambda>c. return (Some c)))
      (save_shapes rec_fn @ []) (\<lambda>c. True)" for c
    by (rule traces_bind [OF traces_save_catalog traces_return]) simp
  then show "catalog \<noteq> None \<Longrightarrow> ?thesis"
    by (cases catalog) simp_all
qed

lemma traces_save_step:
  "is_root a \<Longrightarrow> catalog \<noteq> None \<Longrightarrow>
   traces (if is_root a then
             (case catalog of
                None \<Rightarrow> raise UnboundLocalError
              | Some c \<Rightarrow> bind (save_catalog env a c rec rec_fn) (\<lambda>c. return (Some c)))
           else return catalog) (save_shapes rec_fn) (\<lambda>c. True)"
  by (simp add: traces_save_case)

lemma traces_skip_save_step:
  "\<not> is_root a \<Longrightarrow>
   traces (if is_root a then
             (case catalog of
                None \<Rightarrow> raise UnboundLocalError
              | Some c \<Rightarrow> bind (save_catalog env a c rec rec_fn) (\<lambda>c. return (Some c)))
           else return catalog) [] (\<lambda>c. True)"
  by (simp add: traces_return)

lemma traces_shift_randoms_loop:
  "(\<not> is_root a \<Longrightarrow> snd s = None) \<Longrightarrow>
   traces (shift_randoms_loop env a field pairs s) (shift_shapes a field pairs) (\<lambda>u. True)"
proof (induction pairs arbitrary: s)
  case Nil
  then show ?case
    by (cases s) (simp add: shift_shapes_def traces_return)
next
  case (Cons pair pairs)
  obtain fn rec_fn where pair: "pair = (fn, rec_fn)"
    by (cases pair)
  obtain catalog rp where s: "s = (catalog, rp)"
    by (cases s)
  let ?save = "\<lambda>catalog randoms_positions_rec.
        (if is_root a then
             (case catalog of
                None \<Rightarrow> raise UnboundLocalError
              | Some c \<Rightarrow> bind (save_catalog env a c randoms_positions_rec rec_fn) (\<lambda>c.
                          return (Some c)))
           else return catalog)"
  let ?rest = "\<lambda>(catalog, randoms_positions).
     bind (read_shifted env (Array randoms_positions) field) (\<lambda>randoms_positions_rec.
     bind (?save catalog randoms_positions_rec) (\<lambda>catalog.
     shift_randoms_loop env a field pairs (catalog, randoms_positions)))"
  show ?case
  proof (cases "is_root a")
    case True
    let ?step = "bind (table_read fn) (\<lambda>catalog.
             bind (read_positions_weights env fn True) (\<lambda>((ra, dec, z), randoms_weights, msk).
             bind (lift (select_rows catalog msk)) (\<lambda>catalog.
             return (Some catalog,
                     Some (sky_to_cartesian env (distance a z) ra dec (dtype a))))))"
    have step: "traces ?step [ReadsTable fn, ReadsPositionsWeights fn True]
        (\<lambda>x. fst x \<noteq> None \<and> snd x \<noteq> None)"
      unfolding split_def
      apply (rule traces_then_table_read)
      apply (rule traces_then_read_positions_weights)
      apply (rule traces_then_lift)
      apply (rule traces_return)
      apply simp
      done
    have rest: "traces (?rest x)
        (ReadsShifted (ArrayShape True) field # save_shapes rec_fn @ shift_shapes a field pairs)
        (\<lambda>u. True)"
      if x: "fst x \<noteq> None \<and> snd x \<noteq> None" for x
      unfolding split_def
      apply (rule traces_then_read_shifted)
      using x apply simp
      apply (rule traces_bind [OF traces_save_step [OF True]])
      using x apply simp
      apply (rule Cons.IH)
      using True apply simp
      done
    have "traces (bind ?step ?rest)
       ([ReadsTable fn, ReadsPositionsWeights fn True]
        @ ReadsShifted (ArrayShape True) field # save_shapes rec_fn @ shift_shapes a field pairs)
       (\<lambda>u. True)"
      by (rule traces_bind [OF step rest])
    then show ?thesis
      using True by (simp add: s pair shift_shapes_Cons)
  next
    case False
    with Cons.prems s have n: "rp = None"
      by simp
    have rest: "traces (?rest x)
        (ReadsShifted (ArrayShape False) field # [] @ shift_shapes a field pairs) (\<lambda>u. True)"
      if x: "snd x = None" for x
      unfolding split_def
      apply (rule traces_then_read_shifted)
      using x apply simp
      apply (rule traces_bind [OF traces_skip_save_step [OF False]])
      apply (rule Cons.IH)
      using x apply simp
      done
    have "traces (bind (return (catalog, rp)) ?rest)
       ([] @ ReadsShifted (ArrayShape False) field # [] @ shift_shapes a field pairs) (\<lambda>u. True)"
      by (rule traces_bind [OF traces_return [of "\<lambda>x. snd x = None"] rest]) (simp_all add: n)
    then show ?thesis
      using False by (simp add: s pair shift_shapes_Cons)
  qed
qed

lemma traces_run_reconstruction:
  "traces (run_reconstruction env a) (expected_shapes a) (\<lambda>u. True)"
proof -
  let ?shapes = "load_shapes a
     @ Constructs (Reconstruction a) (is_root a)
     # AssignsData (is_root a) (is_root a)
     # assign_shapes a (wrap_scalar (randoms_fn a))
     @ SetsDensityContrast (smoothing_radius a)
     # Runs
     # ReadsShifted
         (if Reconstruction a = IterativeFFTParticleReconstruction then TagShape ''data''
          else ArrayShape (is_root a))
         (data_field (convention a))
     # (if is_root a then save_shapes (data_rec_fn a) else [])
     @ (if convention a \<noteq> ''rsd''
        then shift_shapes a (randoms_field (convention a))
               (zip (wrap_scalar (randoms_fn a)) (iterate (randoms_rec_fn a)))
        else [])"
  let ?P = "\<lambda>x :: table option \<times> 'a option \<times> column option.
        (fst x \<noteq> None) = is_root a \<and> (fst (snd x) \<noteq> None) = is_root a
        \<and> (snd (snd x) \<noteq> None) = is_root a"
  let ?tail = "\<lambda>catalog randoms_positions.
     if convention a \<noteq> ''rsd'' then
       shift_randoms_loop env a (randoms_field (convention a))
         (zip (wrap_scalar (randoms_fn a)) (iterate (randoms_rec_fn a)))
         (catalog, randoms_positions)
     else return ()"
  let ?tail_shapes = "if convention a \<noteq> ''rsd''
        then shift_shapes a (randoms_field (convention a))
               (zip (wrap_scalar (randoms_fn a)) (iterate (randoms_rec_fn a)))
        else []"
  have tail: "traces (?tail catalog rp) ?tail_shapes (\<lambda>u. True)"
    if "\<not> is_root a \<longrightarrow> rp = None" for catalog rp
    using that by (simp add: traces_shift_randoms_loop traces_return)
  have save: "traces
      (bind (if is_root a then
             (case data of
                None \<Rightarrow> raise UnboundLocalError
              | Some d \<Rightarrow> bind (save_catalog env a d rec (data_rec_fn a)) (\<lambda>c.
                          return (Some c)))
           else return None) (\<lambda>catalog. ?tail catalog rp))
      ((if is_root a then save_shapes (data_rec_fn a) else []) @ ?tail_shapes) (\<lambda>u. True)"
    if "(data \<noteq> None) = is_root a" "\<not> is_root a \<longrightarrow> rp = None" for data rec rp
  proof (cases "is_root a")
    case True
    with that have d: "data \<noteq> None"
      by simp
    show ?thesis
      apply (simp only: True if_True)
      apply (rule traces_bind [OF traces_save_case [OF d]])
      apply (rule tail)
      using that apply simp
      done
  next
    case False
    show ?thesis
      apply (simp only: False if_False)
      apply (rule traces_bind [OF traces_return [of "\<lambda>c. True"]])
       apply simp
      apply (rule tail)
      using that False apply simp
      done
  qed
  have body: "traces
     ((\<lambda>(data, data_positions, data_weights).
     bind (call (Construct (Reconstruction a) (make_recon_init a data_positions))) (\<lambda>_.
     bind (call (AssignData data_positions data_weights)) (\<lambda>_.
     bind (assign_randoms_loop env a (wrap_scalar (randoms_fn a)) (None, None))
       (\<lambda>(randoms_positions, randoms_weights).
     bind (call (SetDensityContrast (smoothing_radius a))) (\<lambda>_.
     bind (call Run) (\<lambda>_.
     bind (read_shifted env (data_target a data_positions) (data_field (convention a)))
       (\<lambda>data_positions_rec.
     bind (if is_root a then
             (case data of
                None \<Rightarrow> raise UnboundLocalError
              | Some d \<Rightarrow> bind (save_catalog env a d data_positions_rec (data_rec_fn a)) (\<lambda>c.
                          return (Some c)))
           else return None) (\<lambda>catalog. ?tail catalog randoms_positions)))))))) x)
     (Constructs (Reconstruction a) (is_root a)
     # AssignsData (is_root a) (is_root a)
     # assign_shapes a (wrap_scalar (randoms_fn a))
     @ SetsDensityContrast (smoothing_radius a)
     # Runs
     # ReadsShifted
         (if Reconstruction a = IterativeFFTParticleReconstruction then TagShape ''data''
          else ArrayShape (is_root a))
         (data_field (convention a))
     # (if is_root a then save_shapes (data_rec_fn a) else []) @ ?tail_shapes) (\<lambda>u. True)"
    if x: "?P x" for x
    unfolding split_def
    apply (rule traces_then_call)
    using x apply (simp add: make_recon_init_def)
    apply (rule traces_then_call)
    using x apply simp
    apply (rule traces_bind [OF traces_assign_randoms_loop])
     apply simp
    apply (rule traces_then_call, simp)
    apply (rule traces_then_call, simp)
    apply (rule traces_then_read_shifted)
    using x apply (simp add: data_target_def)
    apply (rule save)
    using x apply simp
    apply simp
    done
  have "traces (run_reconstruction env a) ?shapes (\<lambda>u. True)"
    unfolding run_reconstruction_def
    by (rule traces_bind [OF traces_load_data body])
  then show ?thesis
    by (simp add: expected_shapes_def before_density_def after_density_def)
qed

lemma run_shapes_prefix: "prefix (map shape (calls env a files)) (expected_shapes a)"
  using tracesD [OF traces_run_reconstruction, of env a "initial files"]
  by (cases "fst (run_reconstruction env a (initial files))")
     (auto simp: calls_def initial_def)

lemma run_shapes_complete:
  "outcome env a files = Inr () \<Longrightarrow> map shape (calls env a files) = expected_shapes a"
  using tracesD [OF traces_run_reconstruction, of env a "initial files"]
  by (auto simp: calls_def outcome_def initial_def)

lemma map_filter_prefix: "prefix xs ys \<Longrightarrow> prefix (List.map_filter f xs) (List.map_filter f ys)"
  by (auto simp: prefix_def List.map_filter_def)

lemma map_filter_append: "List.map_filter f (xs @ ys) = List.map_filter f xs @ List.map_filter f ys"
  by (simp add: List.map_filter_def)

lemma steps_assign_shapes:
  "List.map_filter step_of (assign_shapes a fns) = replicate (length fns) StAssignRandoms"
  by (induction fns) (simp_all add: assign_shapes_Cons map_filter_append List.map_filter_simps,
      simp add: assign_shapes_def)

lemma steps_shift_shapes:
  "List.map_filter step_of (shift_shapes a field pairs) =
     concat (replicate (length pairs) (StReadShifted # (if is_root a then [StWrite] else [])))"
proof (induction pairs)
  case Nil
  then show ?case by (simp add: shift_shapes_def List.map_filter_simps)
next
  case (Cons p pairs)
  then show ?case
    by (cases p)
       (simp add: shift_shapes_Cons map_filter_append List.map_filter_simps save_shapes_def)
qed

lemma first_occurrence:
  assumes "prefix (xs @ [c]) (pre @ c' # after)" and "P c"
    and "\<forall>x\<in>set pre. \<not> P x" and "\<forall>x\<in>set after. \<not> P x"
  shows "xs = pre"
proof -
  from assms(1) obtain zs where eq: "pre @ c' # after = xs @ c # zs"
    by (auto simp: prefix_def)
  then consider us where "pre = xs @ us" "us @ c' # after = c # zs"
    | us where "pre @ us = xs" "c' # after = us @ c # zs"
    by (auto simp: append_eq_append_conv2)
  then show ?thesis
  proof cases
    case 1
    with assms(2,3) show ?thesis
      by (cases us) auto
  next
    case 2
    with assms(2,4) show ?thesis
      by (cases us) auto
  qed
qed

lemma map_filter_member:
  "x \<in> set xs \<Longrightarrow> f x = Some y \<Longrightarrow> y \<in> set (List.map_filter f xs)"
  by (force simp: List.map_filter_def)

lemma count_map_filter:
  "length (filter (\<lambda>x. f x = Some y) xs) = length (filter (\<lambda>z. z = y) (List.map_filter f xs))"
  by (induction xs) (auto simp: List.map_filter_simps split: option.splits)

lemma expected_split:
  "expected_shapes a =
     before_density a @ SetsDensityContrast (smoothing_radius a) # after_density a"
  by (simp add: expected_shapes_def)

lemma steps_before:
  "List.map_filter step_of (before_density a) =
     [StConstruct, StAssignData]
     @ replicate (length (wrap_scalar (randoms_fn a))) StAssignRandoms"
  by (simp add: before_density_def load_shapes_def map_filter_append List.map_filter_simps
      steps_assign_shapes)

lemma steps_after:
  "List.map_filter step_of (after_density a) =
     StRun # concat (replicate (1 + length (outputs a))
         (StReadShifted # (if is_root a then [StWrite] else [])))"
  by (simp add: after_density_def outputs_def wrap_scalar_entries save_shapes_def map_filter_append
      List.map_filter_simps steps_shift_shapes)

lemma steps_expected: "List.map_filter step_of (expected_shapes a) = lifecycle a"
  by (simp add: expected_shapes_def lifecycle_def wrap_scalar_entries map_filter_append List.map_filter_simps
      steps_before steps_after)

lemma density_after_randoms:
  assumes "calls env a files = es1 @ SetDensityContrast sr # es2"
  shows "map shape es1 = before_density a"
proof -
  let ?P = "\<lambda>x. step_of x = Some StSetDensityContrast"
  have "prefix (map shape es1 @ [SetsDensityContrast sr])
          (map shape (calls env a files))"
    by (simp add: assms prefix_def)
  then have p: "prefix (map shape es1 @ [SetsDensityContrast sr])
      (before_density a @ SetsDensityContrast (smoothing_radius a) # after_density a)"
    using run_shapes_prefix [of env a files] by (simp add: expected_split)
  have b: "\<forall>x\<in>set (before_density a). \<not> ?P x"
  proof
    fix x assume "x \<in> set (before_density a)"
    show "\<not> ?P x"
    proof
      assume "?P x"
      with \<open>x \<in> set (before_density a)\<close>
      have "StSetDensityContrast \<in> set (List.map_filter step_of (before_density a))"
        by (rule map_filter_member)
      then show False
        by (simp add: steps_before)
    qed
  qed
  have c: "\<forall>x\<in>set (after_density a). \<not> ?P x"
  proof
    fix x assume "x \<in> set (after_density a)"
    show "\<not> ?P x"
    proof
      assume "?P x"
      with \<open>x \<in> set (after_density a)\<close>
      have "StSetDensityContrast \<in> set (List.map_filter step_of (after_density a))"
        by (rule map_filter_member)
      then show False
        by (auto simp: steps_after split: if_splits)
    qed
  qed
  show ?thesis
    by (rule first_occurrence [OF p _ b c]) simp
qed

lemmas run_defs = run_reconstruction_def load_data_def bind_def
    is_root_def table_read_def log_event_def read_positions_weights_def
    mask_column_def lift_def select_rows_def nrows_def return_def raise_def call_def read_shifted_def
    data_target_def data_field_def randoms_field_def save_catalog_def set_column_def colnames_def
    table_write_def wrap_scalar_def iterate_def make_recon_init_def make_rec_kwargs_def dirname_def
    get_column_def initial_def Let_def

lemma demo_run:
  "run_reconstruction demo_env demo_args (initial demo_files) =
     (Inr (),
      \<lparr>fs = demo_files(''out/d'' \<mapsto> [(''RA'', [20]), (''W'', [2]), (''DEC'', [5]), (''Z'', [1])],
                        ''out/r'' \<mapsto> [(''RA'', [20]), (''W'', [2]), (''DEC'', [5]), (''Z'', [1])]),
       trace =
       [TableRead ''in/d'' (Some demo_table),
        ReadPositionsWeights ''in/d'' True (Inr (([20], [5], [1]), [1], [False, True])),
        Construct IterativeFFTReconstruction
          \<lparr>init_f = 0.8, init_bias = 1.2, init_boxsize = None,
           init_nmesh = None, init_cellsize = 4, init_los = ''local'',
           init_positions = Some ([2], [20], [5]), init_boxpad = 1.2,
           init_dtype = ''f8'', init_kwargs = FftKwargs ''fftw'' 64\<rparr>,
        AssignData (Some ([2], [20], [5])) (Some [1]),
        ReadPositionsWeights ''in/r'' False (Inr (([20], [5], [1]), [1], [False, True])),
        AssignRandoms (Some ([2], [20], [5])) (Some [1]),
        SetDensityContrast 15,
        Run,
        ReadShiftedPositions (Array (Some ([2], [20], [5]))) ''disp+rsd'' ([2], [20], [5]),
        Mkdir ''out'',
        TableWrite ''out/d'' [(''RA'', [20]), (''W'', [2]), (''DEC'', [5]), (''Z'', [1])] ''fits'' True,
        TableRead ''in/r'' (Some demo_table),
        ReadPositionsWeights ''in/r'' True (Inr (([20], [5], [1]), [1], [False, True])),
        ReadShiftedPositions (Array (Some ([2], [20], [5]))) ''disp'' ([2], [20], [5]),
        Mkdir ''out'',
        TableWrite ''out/r'' [(''RA'', [20]), (''W'', [2]), (''DEC'', [5]), (''Z'', [1])] ''fits'' True]\<rparr>)"
  by (simp add: run_defs demo_env_def demo_args_def demo_files_def demo_reader_def demo_table_def)

lemma survey_run:
  "outcome survey_env survey_args survey_files = Inr ()"
  "calls survey_env survey_args survey_files =
     [TableRead ''in/d'' (Some demo_table),
      ReadPositionsWeights ''in/d'' True (Inr (([20], [5], [1]), [1], [False, True])),
      Construct IterativeFFTReconstruction
        \<lparr>init_f = 0.8, init_bias = 1.2, init_boxsize = None,
         init_nmesh = None, init_cellsize = 4, init_los = ''local'',
         init_positions = Some ([2], [20], [5]), init_boxpad = 1.2,
         init_dtype = ''f8'', init_kwargs = FftKwargs ''fftw'' 64\<rparr>,
      AssignData (Some ([2], [20], [5])) (Some [1]),
      ReadPositionsWeights ''in/r1'' False
        (Inr (([30, 50], [1, 3], [2, 3]), [1, 1], [True, False, True])),
      AssignRandoms (Some ([4, 6], [30, 50], [1, 3])) (Some [1, 1]),
      ReadPositionsWeights ''in/r2'' False (Inr (([60], [7], [4]), [1], [True])),
      AssignRandoms (Some ([8], [60], [7])) (Some [1]),
      SetDensityContrast 15,
      Run,
      ReadShiftedPositions (Array (Some ([2], [20], [5]))) ''disp+rsd'' ([4], [21], [4]),
      Mkdir ''out'',
      TableWrite ''out/d'' [(''RA'', [21]), (''W'', [2]), (''DEC'', [4]), (''Z'', [2])]
        ''fits'' True,
      TableRead ''in/r1'' (Some randoms_a),
      ReadPositionsWeights ''in/r1'' True
        (Inr (([30, 50], [1, 3], [2, 3]), [1, 1], [True, False, True])),
      ReadShiftedPositions (Array (Some ([4, 6], [30, 50], [1, 3]))) ''disp''
        ([6, 8], [31, 51], [0, 2]),
      Mkdir ''out'',
      TableWrite ''out/r1'' [(''Z'', [3, 4]), (''RA'', [31, 51]), (''DEC'', [0, 2])]
        ''fits'' True,
      TableRead ''in/r2'' (Some randoms_b),
      ReadPositionsWeights ''in/r2'' True (Inr (([60], [7], [4]), [1], [True])),
      ReadShiftedPositions (Array (Some ([8], [60], [7]))) ''disp'' ([10], [61], [6]),
      Mkdir ''out'',
      TableWrite ''out/r2'' [(''RA'', [61]), (''DEC'', [6]), (''Z'', [5]), (''ID'', [9])]
        ''fits'' True]"
  by (simp_all add: outcome_def calls_def run_defs survey_env_def demo_env_def survey_args_def
      demo_args_def survey_files_def demo_reader_def demo_table_def randoms_a_def
      randoms_b_def demo_shift_def)

lemma scalar_run:
  "outcome survey_env scalar_args survey_files = Inr ()"
  "calls survey_env scalar_args survey_files =
     [TableRead ''in/d'' (Some demo_table),
      ReadPositionsWeights ''in/d'' True (Inr (([20], [5], [1]), [1], [False, True])),
      Construct IterativeFFTReconstruction
        \<lparr>init_f = 0.8, init_bias = 1.2, init_boxsize = None,
         init_nmesh = None, init_cellsize = 4, init_los = ''local'',
         init_positions = Some ([2], [20], [5]), init_boxpad = 1.2,
         init_dtype = ''f8'', init_kwargs = FftKwargs ''fftw'' 64\<rparr>,
      AssignData (Some ([2], [20], [5])) (Some [1]),
      ReadPositionsWeights ''in/r1'' False
        (Inr (([30, 50], [1, 3], [2, 3]), [1, 1], [True, False, True])),
      AssignRandoms (Some ([4, 6], [30, 50], [1, 3])) (Some [1, 1]),
      SetDensityContrast 15,
      Run,
      ReadShiftedPositions (Array (Some ([2], [20], [5]))) ''disp+rsd'' ([4], [21], [4]),
      Mkdir ''out'',
      TableWrite ''out/d'' [(''RA'', [21]), (''W'', [2]), (''DEC'', [4]), (''Z'', [2])]
        ''fits'' True,
      TableRead ''in/r1'' (Some randoms_a),
      ReadPositionsWeights ''in/r1'' True
        (Inr (([30, 50], [1, 3], [2, 3]), [1, 1], [True, False, True])),
      ReadShiftedPositions (Array (Some ([4, 6], [30, 50], [1, 3]))) ''disp''
        ([6, 8], [31, 51], [0, 2]),
      Mkdir ''out'',
      TableWrite ''out/r1'' [(''Z'', [3, 4]), (''RA'', [31, 51]), (''DEC'', [0, 2])]
        ''fits'' True]"
  by (simp_all add: outcome_def calls_def run_defs survey_env_def demo_env_def scalar_args_def
      demo_args_def survey_files_def demo_reader_def demo_table_def randoms_a_def
      randoms_b_def demo_shift_def)


lemma rank1_run:
  "calls demo_env demo_args_rank1 demo_files =
     [Construct IterativeFFTReconstruction
        \<lparr>init_f = 0.8, init_bias = 1.2, init_boxsize = None,
         init_nmesh = None, init_cellsize = 4, init_los = ''local'',
         init_positions = None, init_boxpad = 1.2,
         init_dtype = ''f8'', init_kwargs = MpiKwargs 1 0\<rparr>,
      AssignData None None,
      AssignRandoms None None,
      SetDensityContrast 15,
      Run,
      ReadShiftedPositions (Array None) ''disp+rsd'' ([], [], []),
      ReadShiftedPositions (Array None) ''disp'' ([], [], [])]"
  by (simp add: calls_def run_defs demo_env_def demo_args_rank1_def demo_args_def
      demo_files_def demo_reader_def demo_table_def)

lemma shift_events_assign_shapes: "List.map_filter shift_event_of (assign_shapes a fns) = []"
  by (induction fns) (simp_all add: assign_shapes_def List.map_filter_simps map_filter_append)

lemma shift_events_shift_shapes:
  "List.map_filter shift_event_of (shift_shapes a field pairs) =
     concat (map (\<lambda>(fn, rec_fn). ShiftedRead field # (if is_root a then [Saved rec_fn] else []))
       pairs)"
proof (induction pairs)
  case Nil
  then show ?case by (simp add: shift_shapes_def List.map_filter_simps)
next
  case (Cons p pairs)
  then show ?case
    by (cases p)
       (simp add: shift_shapes_Cons map_filter_append List.map_filter_simps save_shapes_def)
qed

lemma shift_events_expected:
  "List.map_filter shift_event_of (expected_shapes a) = shift_plan a"
  by (simp add: expected_shapes_def before_density_def after_density_def shift_plan_def
      outputs_def wrap_scalar_entries load_shapes_def save_shapes_def data_field_def randoms_field_def
      map_filter_append List.map_filter_simps shift_events_assign_shapes
      shift_events_shift_shapes)

text \<open>
  C2. The data positions are read with the field \<^verbatim>\<open>'disp+rsd'\<close> unless the convention is
  \<^verbatim>\<open>'rsd'\<close>; the randoms positions are read with \<^verbatim>\<open>'disp+rsd'\<close> under \<^verbatim>\<open>'recsym'\<close> and
  with \<^verbatim>\<open>'disp'\<close> under \<^verbatim>\<open>'reciso'\<close>. The reads and the writes of a run follow the
  plan: the first read is the one whose result is saved to \<^verbatim>\<open>data_rec_fn\<close>, each later
  read is the one whose result is saved to a randoms output file.
\<close>

theorem shifted_fields:
  "prefix (List.map_filter shift_event_of (map shape (calls env a files))) (shift_plan a)
   \<and> (outcome env a files = Inr () \<longrightarrow>
        List.map_filter shift_event_of (map shape (calls env a files)) = shift_plan a)"
  using map_filter_prefix [OF run_shapes_prefix, of shift_event_of env a files]
    run_shapes_complete [of env a files]
  by (simp add: shift_events_expected)

theorem shifted_fields_witness:
  "outcome demo_env demo_args demo_files = Inr ()
   \<and> List.map_filter shift_event_of (map shape (calls demo_env demo_args demo_files))
       = [ShiftedRead ''disp+rsd'', Saved ''out/d'', ShiftedRead ''disp'', Saved ''out/r'']"
proof -
  have ok: "outcome demo_env demo_args demo_files = Inr ()"
    by (simp add: outcome_def demo_run)
  have p: "shift_plan demo_args
      = [ShiftedRead ''disp+rsd'', Saved ''out/d'', ShiftedRead ''disp'', Saved ''out/r'']"
    by (simp add: shift_plan_def outputs_def wrap_scalar_entries demo_args_def wrap_scalar_def iterate_def
        is_root_def)
  from shifted_fields [of demo_env demo_args demo_files] ok p show ?thesis
    by simp
qed

lemma demo_run_rsd:
  "run_reconstruction demo_env demo_args_rsd (initial demo_files) =
     (Inr (),
      \<lparr>fs = demo_files(''out/d'' \<mapsto> [(''RA'', [20]), (''W'', [2]), (''DEC'', [5]), (''Z'', [1])]),
       trace =
       [TableRead ''in/d'' (Some demo_table),
        ReadPositionsWeights ''in/d'' True (Inr (([20], [5], [1]), [1], [False, True])),
        Construct IterativeFFTParticleReconstruction
          \<lparr>init_f = 0.8, init_bias = 1.2, init_boxsize = None,
           init_nmesh = None, init_cellsize = 4, init_los = ''local'',
           init_positions = Some ([2], [20], [5]), init_boxpad = 1.2,
           init_dtype = ''f8'', init_kwargs = FftKwargs ''fftw'' 64\<rparr>,
        AssignData (Some ([2], [20], [5])) (Some [1]),
        ReadPositionsWeights ''in/r'' False (Inr (([20], [5], [1]), [1], [False, True])),
        AssignRandoms (Some ([2], [20], [5])) (Some [1]),
        SetDensityContrast 15,
        Run,
        ReadShiftedPositions (Tag ''data'') ''rsd'' ([2], [20], [5]),
        Mkdir ''out'',
        TableWrite ''out/d'' [(''RA'', [20]), (''W'', [2]), (''DEC'', [5]), (''Z'', [1])] ''fits'' True]\<rparr>)"
  by (simp add: run_defs demo_env_def demo_args_rsd_def demo_args_def demo_files_def
      demo_reader_def demo_table_def)

lemma catalog_io_assign_shapes: "List.map_filter catalog_io (assign_shapes a fns) = []"
  by (induction fns) (simp_all add: assign_shapes_def List.map_filter_simps map_filter_append)

lemma catalog_io_expected_rsd:
  "convention a = ''rsd'' \<Longrightarrow> List.map_filter catalog_io (expected_shapes a) = rsd_plan a"
  by (simp add: expected_shapes_def before_density_def after_density_def rsd_plan_def
      load_shapes_def save_shapes_def data_field_def
      map_filter_append List.map_filter_simps catalog_io_assign_shapes)

text \<open>
  C10. The command line does not admit the convention \<^verbatim>\<open>'rsd'\<close>, the function does. Under
  this convention the stage that writes the randoms is skipped: the only
  table read and the only positions read with their mask are those of the data catalog,
  the only read of shifted positions is the one of the data, with the field \<^verbatim>\<open>'rsd'\<close>,
  and the only catalog written is the data catalog (on the root rank).
\<close>

theorem rsd_skips_randoms_output:
  "convention a = ''rsd'' \<Longrightarrow>
   ''rsd'' \<notin> set convention_choices
   \<and> prefix (List.map_filter catalog_io (map shape (calls env a files))) (rsd_plan a)
   \<and> (outcome env a files = Inr () \<longrightarrow>
        List.map_filter catalog_io (map shape (calls env a files)) = rsd_plan a)"
  using map_filter_prefix [OF run_shapes_prefix, of catalog_io env a files]
    run_shapes_complete [of env a files]
  by (simp add: catalog_io_expected_rsd convention_choices_def)

theorem rsd_skips_randoms_output_witness:
  "convention demo_args_rsd = ''rsd''
   \<and> outcome demo_env demo_args_rsd demo_files = Inr ()
   \<and> List.map_filter catalog_io (map shape (calls demo_env demo_args_rsd demo_files))
       = [ReadsTable ''in/d'', ReadsPositionsWeights ''in/d'' True,
          ReadsShifted (TagShape ''data'') ''rsd'',
          MakesDir ''out'', WritesTable ''out/d'' ''fits'' True]"
proof -
  have c: "convention demo_args_rsd = ''rsd''"
    by (simp add: demo_args_rsd_def)
  have ok: "outcome demo_env demo_args_rsd demo_files = Inr ()"
    by (simp add: outcome_def demo_run_rsd)
  have p: "rsd_plan demo_args_rsd
      = [ReadsTable ''in/d'', ReadsPositionsWeights ''in/d'' True,
          ReadsShifted (TagShape ''data'') ''rsd'',
          MakesDir ''out'', WritesTable ''out/d'' ''fits'' True]"
    by (simp add: rsd_plan_def demo_args_rsd_def demo_args_def is_root_def dirname_def)
  from rsd_skips_randoms_output [OF c, of demo_env demo_files] ok p show ?thesis
    by (simp add: c)
qed

lemma targets_assign_shapes: "List.map_filter target_of (assign_shapes a fns) = []"
  by (induction fns) (simp_all add: assign_shapes_def List.map_filter_simps map_filter_append)

lemma targets_shift_shapes:
  "List.map_filter target_of (shift_shapes a field pairs) =
     replicate (length pairs) (ArrayShape (is_root a))"
proof (induction pairs)
  case Nil
  then show ?case by (simp add: shift_shapes_def List.map_filter_simps)
next
  case (Cons p pairs)
  then show ?case
    by (cases p)
       (simp add: shift_shapes_Cons map_filter_append List.map_filter_simps save_shapes_def)
qed

lemma targets_expected: "List.map_filter target_of (expected_shapes a) = target_plan a"
  by (simp add: expected_shapes_def before_density_def after_density_def target_plan_def
      outputs_def wrap_scalar_entries load_shapes_def save_shapes_def
      map_filter_append List.map_filter_simps targets_assign_shapes targets_shift_shapes)

text \<open>
  C8. \<^verbatim>\<open>--algorithm\<close> selects the class: MG the multigrid class, IFT the iterative FFT
  class, IFTP the iterative FFT particle class. Of the reads of shifted positions of a
  run, only the first, the one of the data, can name the tag \<^verbatim>\<open>'data'\<close>, and it does so
  exactly when the class is the particle variant; otherwise it passes the data position
  array (\<^verbatim>\<open>None\<close> off the root rank), as every read of the randoms does with theirs.
\<close>

theorem algorithm_selection:
  "select_Reconstruction ''MG'' = Inr MultiGridReconstruction
   \<and> select_Reconstruction ''IFT'' = Inr IterativeFFTReconstruction
   \<and> select_Reconstruction ''IFTP'' = Inr IterativeFFTParticleReconstruction
   \<and> prefix (List.map_filter target_of (map shape (calls env a files))) (target_plan a)
   \<and> (outcome env a files = Inr () \<longrightarrow>
        List.map_filter target_of (map shape (calls env a files)) = target_plan a)"
  using map_filter_prefix [OF run_shapes_prefix, of target_of env a files]
    run_shapes_complete [of env a files]
  by (simp add: targets_expected select_Reconstruction_def)

theorem algorithm_selection_witness:
  "outcome demo_env demo_args demo_files = Inr ()
   \<and> Reconstruction demo_args = IterativeFFTReconstruction
   \<and> List.map_filter target_of (map shape (calls demo_env demo_args demo_files))
       = [ArrayShape True, ArrayShape True]
   \<and> outcome demo_env demo_args_rsd demo_files = Inr ()
   \<and> Reconstruction demo_args_rsd = IterativeFFTParticleReconstruction
   \<and> List.map_filter target_of (map shape (calls demo_env demo_args_rsd demo_files))
       = [TagShape ''data'']"
proof -
  have ok: "outcome demo_env demo_args demo_files = Inr ()"
    by (simp add: outcome_def demo_run)
  have ok': "outcome demo_env demo_args_rsd demo_files = Inr ()"
    by (simp add: outcome_def demo_run_rsd)
  have p: "target_plan demo_args = [ArrayShape True, ArrayShape True]"
    "Reconstruction demo_args = IterativeFFTReconstruction"
    by (simp_all add: target_plan_def outputs_def wrap_scalar_entries demo_args_def wrap_scalar_def iterate_def
        is_root_def)
  have p': "target_plan demo_args_rsd = [TagShape ''data'']"
    "Reconstruction demo_args_rsd = IterativeFFTParticleReconstruction"
    by (simp_all add: target_plan_def outputs_def wrap_scalar_entries demo_args_rsd_def demo_args_def)
  from algorithm_selection [of demo_env demo_args demo_files]
    algorithm_selection [of demo_env demo_args_rsd demo_files] ok ok' p p'
  show ?thesis
    by simp
qed

section \<open>The invariant of a run\<close>

text \<open>
  Rules for \<open>post\<close>, one per primitive of the model, and the proof that every call of a
  run is as \<open>event_ok\<close> says, given the calls before it (\<open>all_ok\<close>), whether the run
  returns or raises.
\<close>

lemma trace_log_event [simp]: "trace (log_event e w) = trace w @ [e]"
  by (simp add: log_event_def)

lemma fs_log_event [simp]: "fs (log_event e w) = fs w"
  by (simp add: log_event_def)

lemma post_bind: "post (bind m k) Q E = post m (\<lambda>x. post (k x) Q E) E"
  by (rule ext) (simp add: post_def bind_def split: prod.splits sum.splits)

lemma post_return: "post (return x) Q E = Q x"
  by (rule ext) (simp add: post_def return_def)

lemma post_raise: "post (raise e) Q E = E"
  by (rule ext) (simp add: post_def raise_def)

lemma post_lift: "post (lift r) Q E w = (case r of Inr x \<Rightarrow> Q x w | Inl e \<Rightarrow> E w)"
  by (simp add: post_def lift_def return_def raise_def split: sum.splits)

lemma post_call: "post (call e) Q E w = Q () (log_event e w)"
  by (simp add: post_def call_def)

lemma post_table_read:
  "post (table_read fn) Q E w =
     (case fs w fn of
        Some t \<Rightarrow> Q t (log_event (TableRead fn (Some t)) w)
      | None \<Rightarrow> E (log_event (TableRead fn None) w))"
  by (simp add: post_def table_read_def split: option.splits)

lemma post_table_write:
  "post (table_write t fn fmt ow) Q E w =
     Q () (log_event (TableWrite fn t fmt ow) (w\<lparr>fs := (fs w)(fn \<mapsto> t)\<rparr>))"
  by (simp add: post_def table_write_def)

lemma post_read_positions_weights:
  "post (read_positions_weights env fn return_mask) Q E w =
     (case read_positions_weights_cutsky env (fs w) fn return_mask of
        Inr x \<Rightarrow> Q x (log_event (ReadPositionsWeights fn return_mask (Inr x)) w)
      | Inl e \<Rightarrow> E (log_event (ReadPositionsWeights fn return_mask (Inl e)) w))"
  by (simp add: post_def read_positions_weights_def Let_def split: sum.splits)

lemma post_read_shifted:
  "post (read_shifted env tgt field) Q E w =
     Q (read_shifted_positions env (trace w) tgt field)
       (log_event (ReadShiftedPositions tgt field
          (read_shifted_positions env (trace w) tgt field)) w)"
  by (simp add: post_def read_shifted_def Let_def)

lemmas post_simps = post_bind post_return post_raise post_lift post_call post_table_read
  post_table_write post_read_positions_weights post_read_shifted

lemma post_mono:
  "post m Q E w \<Longrightarrow> (\<And>x w'. Q x w' \<Longrightarrow> Q' x w') \<Longrightarrow> (\<And>w'. E w' \<Longrightarrow> E' w')
   \<Longrightarrow> post m Q' E' w"
  by (cases "fst (m w)") (simp_all add: post_def)

lemma all_ok_Nil: "all_ok env a []"
  by (simp add: all_ok_def)

lemma all_ok_snoc: "all_ok env a (es @ [e]) = (all_ok env a es \<and> event_ok env a es e)"
proof
  assume h: "all_ok env a (es @ [e])"
  have "event_ok env a es1 e'" if "es = es1 @ e' # es2" for es1 e' es2
  proof -
    from that have "es @ [e] = es1 @ e' # (es2 @ [e])"
      by simp
    with h show ?thesis
      unfolding all_ok_def by blast
  qed
  moreover from h have "event_ok env a es e"
    unfolding all_ok_def by (metis append_Nil2 append_assoc append_Cons append_Nil)
  ultimately show "all_ok env a es \<and> event_ok env a es e"
    by (simp add: all_ok_def)
next
  assume h: "all_ok env a es \<and> event_ok env a es e"
  show "all_ok env a (es @ [e])"
    unfolding all_ok_def
  proof (intro allI impI)
    fix es1 e' es2
    assume eq: "es @ [e] = es1 @ e' # es2"
    show "event_ok env a es1 e'"
    proof (cases es2 rule: rev_cases)
      case Nil
      with eq have "es1 = es" "e' = e"
        by simp_all
      with h show ?thesis
        by simp
    next
      case (snoc ys y)
      with eq have "es = es1 @ e' # ys"
        by simp
      with h show ?thesis
        by (auto simp: all_ok_def)
    qed
  qed
qed

lemma all_ok_append: "all_ok env a (es @ new) = (all_ok env a es \<and> oks env a es new)"
proof (induction new arbitrary: es)
  case Nil
  then show ?case by simp
next
  case (Cons e new)
  have "all_ok env a (es @ e # new) = all_ok env a ((es @ [e]) @ new)"
    by simp
  also have "\<dots> = (all_ok env a (es @ [e]) \<and> oks env a (es @ [e]) new)"
    by (rule Cons.IH)
  finally show ?case
    by (simp add: all_ok_snoc)
qed

lemma all_ok_Cons: "all_ok env a (e # es) = oks env a [] (e # es)"
  using all_ok_append [of env a "[]" "e # es"] by (simp add: all_ok_Nil)

lemma saved_intro:
  "set_column cat ''RA'' (fst (snd (cartesian_to_sky env rec))) = Inr c1 \<Longrightarrow>
   set_column c1 ''DEC'' (snd (snd (cartesian_to_sky env rec))) = Inr c2 \<Longrightarrow>
   set_column c2 ''Z'' (DistanceToRedshift env (distance a) (fst (cartesian_to_sky env rec)))
     = Inr t' \<Longrightarrow>
   saved env a cat rec t'"
  by (auto simp: saved_def split_def)

lemma post_save_catalog:
  fixes env :: "'p env"
  assumes ok: "all_ok env a (trace w)"
    and tr: "trace w = h @ [ReadShiftedPositions tgt field rec]"
    and src: "catalog_source env a h tgt src fn t r"
    and sel: "select_rows t (mask_of r) = Inr cat"
  shows "post (save_catalog env a cat rec fn)
     (\<lambda>c w'. all_ok env a (trace w')) (\<lambda>w'. all_ok env a (trace w')) w"
proof -
  have w: "event_ok env a (trace w @ [Mkdir (dirname fn)]) (TableWrite fn t' ''fits'' True)"
    if "saved env a cat rec t'" for t'
    unfolding event_ok.simps tr
    using src sel that
    by (intro conjI exI [of _ h] exI [of _ tgt] exI [of _ field] exI [of _ rec]
        exI [of _ src] exI [of _ t] exI [of _ r] exI [of _ cat]) simp_all
  show ?thesis
    unfolding save_catalog_def split_def
    by (auto simp: post_simps all_ok_append ok split: sum.splits
        intro!: w saved_intro simp del: event_ok.simps(5))
qed

lemma shift_ok_randoms:
  "randoms_read es fn t r \<Longrightarrow> p = positions_of env a r \<Longrightarrow>
   event_ok env a es (ReadShiftedPositions (Array (Some p)) field
     (read_shifted_positions env es (Array (Some p)) field))"
  unfolding event_ok.simps by blast

lemma shift_ok_data:
  "data_read a es t r \<Longrightarrow> p = positions_of env a r \<Longrightarrow>
   event_ok env a es (ReadShiftedPositions (Array (Some p)) field
     (read_shifted_positions env es (Array (Some p)) field))"
  unfolding event_ok.simps by blast

lemma shift_ok_other:
  "tgt = Tag s \<or> tgt = Array None \<Longrightarrow>
   event_ok env a es (ReadShiftedPositions tgt field (read_shifted_positions env es tgt field))"
  by auto

lemma post_shift_randoms_loop:
  fixes env :: "'p env"
  assumes "all_ok env a (trace w)" and "set pairs \<subseteq> set (outputs a)"
    and "\<not> is_root a \<Longrightarrow> snd s = None"
  shows "post (shift_randoms_loop env a field pairs s)
     (\<lambda>u w'. all_ok env a (trace w')) (\<lambda>w'. all_ok env a (trace w')) w"
  using assms
proof (induction pairs arbitrary: s w)
  case Nil
  then show ?case
    by (cases s) (simp add: post_simps)
next
  case (Cons pair pairs)
  obtain fn rec_fn where pair: "pair = (fn, rec_fn)"
    by (cases pair)
  obtain catalog rp where s: "s = (catalog, rp)"
    by (cases s)
  from Cons.prems pair have io: "(fn, rec_fn) \<in> set (outputs a)"
    and sub: "set pairs \<subseteq> set (outputs a)"
    by simp_all
  show ?case
  proof (cases "is_root a")
    case False
    with Cons.prems s have n: "rp = None"
      by simp
    show ?thesis
      using False Cons.prems(1)
      by (auto simp: s pair n post_simps all_ok_append intro!: Cons.IH sub)
  next
    case True
    let ?I = "\<lambda>w' :: 'p world. all_ok env a (trace w')"
    have tail: "post
        (save_catalog env a cat
           (read_shifted_positions env
              (trace w @ [TableRead fn (Some t),
                          ReadPositionsWeights fn True (Inr ((ra, dec, z), wts, msk))])
              (Array (Some (sky_to_cartesian env (distance a z) ra dec (dtype a)))) field)
           rec_fn)
        (\<lambda>c. post (shift_randoms_loop env a field pairs
                 (Some c, Some (sky_to_cartesian env (distance a z) ra dec (dtype a))))
               (\<lambda>u. ?I) ?I)
        ?I
        (log_event
           (ReadShiftedPositions
              (Array (Some (sky_to_cartesian env (distance a z) ra dec (dtype a)))) field
              (read_shifted_positions env
                 (trace w @ [TableRead fn (Some t),
                             ReadPositionsWeights fn True (Inr ((ra, dec, z), wts, msk))])
                 (Array (Some (sky_to_cartesian env (distance a z) ra dec (dtype a)))) field))
           (log_event (ReadPositionsWeights fn True (Inr ((ra, dec, z), wts, msk)))
              (log_event (TableRead fn (Some t)) w)))"
      if sel: "select_rows t msk = Inr cat" for t ra dec z wts msk cat
    proof -
      let ?r = "((ra, dec, z), wts, msk)"
      let ?h = "trace w @ [TableRead fn (Some t), ReadPositionsWeights fn True (Inr ?r)]"
      let ?p = "sky_to_cartesian env (distance a z) ra dec (dtype a)"
      let ?rec = "read_shifted_positions env ?h (Array (Some ?p)) field"
      let ?w = "log_event (ReadShiftedPositions (Array (Some ?p)) field ?rec)
           (log_event (ReadPositionsWeights fn True (Inr ?r))
              (log_event (TableRead fn (Some t)) w))"
      have rr: "randoms_read ?h fn t ?r"
        unfolding randoms_read_def by blast
      have ok: "all_ok env a (trace ?w)"
        using Cons.prems(1) shift_ok_randoms [OF rr, of ?p env a field]
        by (simp add: all_ok_append positions_of_def del: event_ok.simps(4))
      have tr: "trace ?w = ?h @ [ReadShiftedPositions (Array (Some ?p)) field ?rec]"
        by simp
      have src: "catalog_source env a ?h (Array (Some ?p)) fn rec_fn t ?r"
        using rr io by (simp add: catalog_source_def positions_of_def)
      have sel': "select_rows t (mask_of ?r) = Inr cat"
        using sel by (simp add: mask_of_def)
      show ?thesis
      proof (rule post_mono [OF post_save_catalog [OF ok tr src sel']])
        fix c and w' :: "'p world"
        assume "all_ok env a (trace w')"
        then show "post (shift_randoms_loop env a field pairs (Some c, Some ?p))
            (\<lambda>u. ?I) ?I w'"
          by (rule Cons.IH) (simp_all add: sub True)
      qed
    qed
    show ?thesis
      using True Cons.prems(1)
      by (auto simp: s pair post_simps all_ok_append split_def
          split: option.splits sum.splits intro!: tail)
  qed
qed

lemma assigned_data_append:
  "assigned_data (es @ es') =
     (case assigned_data es' of Some p \<Rightarrow> Some p | None \<Rightarrow> assigned_data es)"
  by (induction es) (auto split: option.splits)

lemma data_read_append:
  "data_read a es t r \<Longrightarrow> filter is_shift es' = [] \<Longrightarrow> data_read a (es @ es') t r"
  by (cases es; cases "tl es") (auto simp: data_read_def)

lemma post_assign_randoms_loop:
  fixes env :: "'p env"
  assumes ok: "all_ok env a (trace w)" and p: "P (trace w)"
    and keep: "\<And>es e. P es \<Longrightarrow> randoms_call e \<Longrightarrow> P (es @ [e])"
    and nr: "\<not> is_root a \<Longrightarrow> s = (None, None)"
  shows "post (assign_randoms_loop env a fns s)
     (\<lambda>s' w'. all_ok env a (trace w') \<and> P (trace w') \<and> (\<not> is_root a \<longrightarrow> s' = (None, None)))
     (\<lambda>w'. all_ok env a (trace w')) w"
  using ok p nr
proof (induction fns arbitrary: s w)
  case Nil
  then show ?case
    by (cases s) (auto simp: post_simps)
next
  case (Cons fn fns)
  obtain rp rw where s: "s = (rp, rw)"
    by (cases s)
  let ?Q = "\<lambda>s' (w' :: 'p world). all_ok env a (trace w') \<and> P (trace w')
      \<and> (\<not> is_root a \<longrightarrow> s' = (None, None))"
  let ?I = "\<lambda>w' :: 'p world. all_ok env a (trace w')"
  show ?case
  proof (cases "is_root a")
    case False
    with Cons.prems s have n: "rp = None" "rw = None"
      by simp_all
    have "post (assign_randoms_loop env a fns (None, None)) ?Q ?I
        (log_event (AssignRandoms None None) w)"
      using Cons.prems(1,2) by (intro Cons.IH) (simp_all add: all_ok_append keep)
    then show ?thesis
      using False by (simp add: s n post_simps)
  next
    case True
    have step: "post (assign_randoms_loop env a fns
          (Some (sky_to_cartesian env (distance a z) ra dec (dtype a)), Some wts)) ?Q ?I
        (log_event
           (AssignRandoms (Some (sky_to_cartesian env (distance a z) ra dec (dtype a)))
              (Some wts))
           (log_event (ReadPositionsWeights fn False (Inr ((ra, dec, z), wts, msk))) w))"
      for ra dec z wts msk
    proof (rule Cons.IH)
      let ?r = "((ra, dec, z), wts, msk)"
      have "event_ok env a (trace w @ [ReadPositionsWeights fn False (Inr ?r)])
          (AssignRandoms (Some (positions_of env a ?r)) (Some (weights_of ?r)))"
        unfolding event_ok.simps by blast
      with Cons.prems(1)
      show "all_ok env a (trace (log_event
           (AssignRandoms (Some (sky_to_cartesian env (distance a z) ra dec (dtype a)))
              (Some wts))
           (log_event (ReadPositionsWeights fn False (Inr ?r)) w)))"
        by (simp add: all_ok_append positions_of_def weights_of_def del: event_ok.simps(3))
      from Cons.prems(2)
      show "P (trace (log_event
           (AssignRandoms (Some (sky_to_cartesian env (distance a z) ra dec (dtype a)))
              (Some wts))
           (log_event (ReadPositionsWeights fn False (Inr ?r)) w)))"
        using keep [OF keep, of "trace w" "ReadPositionsWeights fn False (Inr ?r)"
            "AssignRandoms (Some (sky_to_cartesian env (distance a z) ra dec (dtype a)))
              (Some wts)"]
        by simp
    qed (simp add: True)
    have body: "assign_randoms_loop env a (fn # fns) (rp, rw) =
        bind (bind (read_positions_weights env fn False) (\<lambda>((ra, dec, z), randoms_weights, msk).
                return (Some (sky_to_cartesian env (distance a z) ra dec (dtype a)),
                        Some randoms_weights))) (\<lambda>(randoms_positions, randoms_weights).
        bind (call (AssignRandoms randoms_positions randoms_weights)) (\<lambda>_.
        assign_randoms_loop env a fns (randoms_positions, randoms_weights)))"
      using True by simp
    show ?thesis
      unfolding s body using Cons.prems(1)
      by (auto simp: post_simps all_ok_append split_def split: sum.splits intro!: step)
  qed
qed

lemmas post_steps = post_bind [THEN fun_cong] post_return [THEN fun_cong]
  post_raise [THEN fun_cong] post_lift post_call post_table_read post_table_write
  post_read_positions_weights post_read_shifted

lemma post_tail:
  fixes env :: "'p env"
  assumes "all_ok env a (trace w)" and "\<not> is_root a \<Longrightarrow> rp = None"
  shows "post
     (if convention a \<noteq> ''rsd'' then
        shift_randoms_loop env a (randoms_field (convention a))
          (zip (wrap_scalar (randoms_fn a)) (iterate (randoms_rec_fn a)))
          (catalog, rp)
      else return ())
     (\<lambda>u w'. all_ok env a (trace w')) (\<lambda>w'. all_ok env a (trace w')) w"
proof (cases "convention a = ''rsd''")
  case True
  with assms(1) show ?thesis
    by (simp add: post_simps)
next
  case False
  have "post (shift_randoms_loop env a (randoms_field (convention a))
          (zip (wrap_scalar (randoms_fn a)) (iterate (randoms_rec_fn a))) (catalog, rp))
     (\<lambda>u w'. all_ok env a (trace w')) (\<lambda>w'. all_ok env a (trace w')) w"
    using assms False
    by (intro post_shift_randoms_loop) (simp_all add: outputs_def wrap_scalar_entries)
  with False show ?thesis
    by simp
qed

lemma post_finish:
  fixes env :: "'p env"
  assumes ok: "all_ok env a (trace w)"
    and root: "is_root a \<Longrightarrow> data_read a (trace w) t r
        \<and> assigned_data (trace w) = Some (positions_of env a r)
        \<and> data = Some cat \<and> select_rows t (mask_of r) = Inr cat
        \<and> dp = Some (positions_of env a r)"
    and nonroot: "\<not> is_root a \<Longrightarrow> dp = None \<and> rp = None"
  shows "post
     (bind (call (SetDensityContrast (smoothing_radius a))) (\<lambda>_.
      bind (call Run) (\<lambda>_.
      bind (read_shifted env (data_target a dp) (data_field (convention a)))
        (\<lambda>data_positions_rec.
      bind (if is_root a then
              (case data of
                 None \<Rightarrow> raise UnboundLocalError
               | Some d \<Rightarrow> bind (save_catalog env a d data_positions_rec (data_rec_fn a)) (\<lambda>c.
                           return (Some c)))
            else return None) (\<lambda>catalog.
      if convention a \<noteq> ''rsd'' then
        shift_randoms_loop env a (randoms_field (convention a))
          (zip (wrap_scalar (randoms_fn a)) (iterate (randoms_rec_fn a)))
          (catalog, rp)
      else return ())))))
     (\<lambda>u w'. all_ok env a (trace w')) (\<lambda>w'. all_ok env a (trace w')) w"
proof (cases "is_root a")
  case False
  let ?tgt = "data_target a dp"
  let ?f = "data_field (convention a)"
  let ?h = "trace w @ [SetDensityContrast (smoothing_radius a), Run]"
  let ?w3 = "log_event (ReadShiftedPositions ?tgt ?f (read_shifted_positions env ?h ?tgt ?f))
      (log_event Run (log_event (SetDensityContrast (smoothing_radius a)) w))"
  from nonroot [OF False] have "?tgt = Tag ''data'' \<or> ?tgt = Array None"
    by (simp add: data_target_def)
  from shift_ok_other [OF this, of env a ?h ?f] ok
  have "all_ok env a (trace ?w3)"
    by (simp add: all_ok_append del: event_ok.simps(4))
  from post_tail [OF this, of rp None] nonroot [OF False] False
  show ?thesis
    by (simp add: post_steps)
next
  case True
  note r = root [OF True]
  let ?I = "\<lambda>w' :: 'p world. all_ok env a (trace w')"
  let ?p = "positions_of env a r"
  let ?tgt = "data_target a dp"
  let ?f = "data_field (convention a)"
  let ?h = "trace w @ [SetDensityContrast (smoothing_radius a), Run]"
  let ?rec = "read_shifted_positions env ?h ?tgt ?f"
  let ?w3 = "log_event (ReadShiftedPositions ?tgt ?f ?rec)
      (log_event Run (log_event (SetDensityContrast (smoothing_radius a)) w))"
  from r have dr: "data_read a ?h t r"
    by (intro data_read_append) simp_all
  have ad: "assigned_data ?h = Some ?p"
    using r by (simp add: assigned_data_append)
  have tgt: "?tgt = Array (Some ?p) \<or> ?tgt = Tag ''data''"
    using r by (simp add: data_target_def)
  have ev: "event_ok env a ?h (ReadShiftedPositions ?tgt ?f ?rec)"
    using tgt
  proof
    assume "?tgt = Array (Some ?p)"
    with shift_ok_data [OF dr refl, of env ?f] show ?thesis
      by (simp del: event_ok.simps)
  next
    assume "?tgt = Tag ''data''"
    then show ?thesis
      by (intro shift_ok_other) simp
  qed
  with ok have ok3: "all_ok env a (trace ?w3)"
    by (simp add: all_ok_append del: event_ok.simps(4))
  have tr: "trace ?w3 = ?h @ [ReadShiftedPositions ?tgt ?f ?rec]"
    by simp
  have src: "catalog_source env a ?h ?tgt (data_fn a) (data_rec_fn a) t r"
    using dr ad tgt by (auto simp: catalog_source_def)
  from r have sel: "select_rows t (mask_of r) = Inr cat"
    by simp
  have save: "post (save_catalog env a cat ?rec (data_rec_fn a))
      (\<lambda>c. post (return (Some c))
         (\<lambda>catalog. post
            (if convention a \<noteq> ''rsd'' then
               shift_randoms_loop env a (randoms_field (convention a))
                 (zip (wrap_scalar (randoms_fn a)) (iterate (randoms_rec_fn a)))
                 (catalog, rp)
             else return ()) (\<lambda>u. ?I) ?I) ?I) ?I ?w3"
  proof (rule post_mono [OF post_save_catalog [OF ok3 tr src sel]])
    fix c and w' :: "'p world"
    assume "all_ok env a (trace w')"
    from post_tail [OF this, of rp "Some c"] True
    show "post (return (Some c))
         (\<lambda>catalog. post
            (if convention a \<noteq> ''rsd'' then
               shift_randoms_loop env a (randoms_field (convention a))
                 (zip (wrap_scalar (randoms_fn a)) (iterate (randoms_rec_fn a)))
                 (catalog, rp)
             else return ()) (\<lambda>u. ?I) ?I) ?I w'"
      by (simp add: post_steps)
  qed simp
  from r have d: "data = Some cat"
    by simp
  show ?thesis
    using save by (simp add: post_steps True d)
qed

lemma randoms_call_keeps:
  assumes "is_root a \<longrightarrow> data_read a es t r \<and> assigned_data es = Some p"
    and "randoms_call e"
  shows "is_root a \<longrightarrow> data_read a (es @ [e]) t r \<and> assigned_data (es @ [e]) = Some p"
proof -
  from assms(2) have "filter is_shift [e] = []" and "assigned_data [e] = None"
    by (cases e; simp)+
  with assms(1) show ?thesis
    by (auto simp: assigned_data_append intro: data_read_append)
qed

lemma post_load_data:
  fixes env :: "'p env"
  shows "post (load_data env a)
     (\<lambda>x w'. if is_root a
        then \<exists>t r cat. trace w' = [TableRead (data_fn a) (Some t),
                                   ReadPositionsWeights (data_fn a) True (Inr r)]
               \<and> select_rows t (mask_of r) = Inr cat
               \<and> x = (Some cat, Some (positions_of env a r), Some (weights_of r))
        else trace w' = [] \<and> x = (None, None, None))
     (\<lambda>w'. all_ok env a (trace w')) (initial files)"
  unfolding load_data_def
  by (auto simp: post_simps initial_def all_ok_Cons split_def positions_of_def weights_of_def
      mask_of_def split: option.splits sum.splits)

lemma post_run_reconstruction:
  fixes env :: "'p env"
  shows "post (run_reconstruction env a)
     (\<lambda>u w'. all_ok env a (trace w')) (\<lambda>w'. all_ok env a (trace w')) (initial files)"
proof -
  let ?I = "\<lambda>w' :: 'p world. all_ok env a (trace w')"
  let ?fin = "\<lambda>data dp rp.
      bind (call (SetDensityContrast (smoothing_radius a))) (\<lambda>_.
      bind (call Run) (\<lambda>_.
      bind (read_shifted env (data_target a dp) (data_field (convention a)))
        (\<lambda>data_positions_rec.
      bind (if is_root a then
              (case data of
                 None \<Rightarrow> raise UnboundLocalError
               | Some d \<Rightarrow> bind (save_catalog env a d data_positions_rec (data_rec_fn a)) (\<lambda>c.
                           return (Some c)))
            else return None) (\<lambda>catalog.
      if convention a \<noteq> ''rsd'' then
        shift_randoms_loop env a (randoms_field (convention a))
          (zip (wrap_scalar (randoms_fn a)) (iterate (randoms_rec_fn a)))
          (catalog, rp)
      else return ()))))"
  let ?body = "\<lambda>data dp dw.
      bind (call (Construct (Reconstruction a) (make_recon_init a dp))) (\<lambda>_.
      bind (call (AssignData dp dw)) (\<lambda>_.
      bind (assign_randoms_loop env a (wrap_scalar (randoms_fn a)) (None, None))
        (\<lambda>(randoms_positions, randoms_weights). ?fin data dp randoms_positions)))"
  have run: "run_reconstruction env a =
      bind (load_data env a) (\<lambda>(data, dp, dw). ?body data dp dw)"
    by (simp add: run_reconstruction_def)
  have body: "post (?body data dp dw) (\<lambda>u. ?I) ?I w"
    if l: "if is_root a
        then \<exists>t r cat. trace w = [TableRead (data_fn a) (Some t),
                                   ReadPositionsWeights (data_fn a) True (Inr r)]
               \<and> select_rows t (mask_of r) = Inr cat
               \<and> (data, dp, dw) = (Some cat, Some (positions_of env a r), Some (weights_of r))
        else trace w = [] \<and> (data, dp, dw) = (None, None, None)"
    for data dp dw and w :: "'p world"
  proof -
    let ?w2 = "log_event (AssignData dp dw)
        (log_event (Construct (Reconstruction a) (make_recon_init a dp)) w)"
    obtain t r cat where root: "is_root a \<Longrightarrow>
        trace w = [TableRead (data_fn a) (Some t), ReadPositionsWeights (data_fn a) True (Inr r)]
        \<and> select_rows t (mask_of r) = Inr cat
        \<and> data = Some cat \<and> dp = Some (positions_of env a r) \<and> dw = Some (weights_of r)"
      using l by (cases "is_root a") auto
    from l have nonroot: "\<not> is_root a \<Longrightarrow> trace w = [] \<and> dp = None \<and> dw = None"
      by (cases "is_root a") auto
    let ?P = "\<lambda>es. is_root a \<longrightarrow>
        data_read a es t r \<and> assigned_data es = Some (positions_of env a r)"
    have ok2: "all_ok env a (trace ?w2)"
      using root nonroot
      by (cases "is_root a") (auto simp: all_ok_Cons make_recon_init_def)
    have p2: "?P (trace ?w2)"
      using root by (auto simp: data_read_def make_recon_init_def)
    have loop: "post (assign_randoms_loop env a (wrap_scalar (randoms_fn a)) (None, None))
        (\<lambda>x. post (case x of (randoms_positions, randoms_weights) \<Rightarrow>
                       ?fin data dp randoms_positions) (\<lambda>u. ?I) ?I) ?I ?w2"
    proof (rule post_mono [OF post_assign_randoms_loop [where P = ?P, OF ok2 p2]])
      fix es :: "'p event list" and e :: "'p event"
      assume "?P es" and "randoms_call e"
      then show "?P (es @ [e])"
        by (rule randoms_call_keeps)
    next
      fix s' :: "'p option \<times> column option" and w' :: "'p world"
      assume h: "all_ok env a (trace w') \<and> ?P (trace w')
          \<and> (\<not> is_root a \<longrightarrow> s' = (None, None))"
      have "post (?fin data dp (fst s')) (\<lambda>u. ?I) ?I w'"
      proof (rule post_finish [where t = t and r = r and cat = cat])
        from h show "all_ok env a (trace w')"
          by simp
        show "data_read a (trace w') t r
            \<and> assigned_data (trace w') = Some (positions_of env a r)
            \<and> data = Some cat \<and> select_rows t (mask_of r) = Inr cat
            \<and> dp = Some (positions_of env a r)" if "is_root a"
          using h root [OF that] that by simp
        show "dp = None \<and> fst s' = None" if "\<not> is_root a"
          using h nonroot [OF that] that by simp
      qed
      then show "post (case s' of (randoms_positions, randoms_weights) \<Rightarrow>
                       ?fin data dp randoms_positions) (\<lambda>u. ?I) ?I w'"
        by (simp add: split_def)
    qed simp_all
    then show ?thesis
      by (simp only: post_steps)
  qed
  show ?thesis
    unfolding run post_steps(1)
    by (rule post_mono [OF post_load_data]) (auto intro!: body)
qed

lemma run_all_ok: "all_ok env a (calls env a files)"
  using post_run_reconstruction [of env a files]
  by (cases "fst (run_reconstruction env a (initial files))")
     (simp_all add: post_def calls_def)

subsection \<open>Columns of a saved catalog\<close>

lemma map_of_replace_column:
  "map_of (replace_column t name col) n =
     (if n = name \<and> name \<in> fst ` set t then Some col else map_of t n)"
  by (induction t) (auto simp: rev_image_eqI)

lemma colnames_replace_column: "map fst (replace_column t name col) = map fst t"
  by (induction t) auto

lemma set_column_other:
  "set_column t name col = Inr t' \<Longrightarrow> n \<noteq> name \<Longrightarrow> get_column t' n = get_column t n"
  by (auto simp: set_column_def get_column_def map_of_replace_column map_add_def
      split: if_splits option.splits)

lemma set_column_this:
  assumes "set_column t name col = Inr t'"
  shows "get_column t' name = Some col"
proof (cases "name \<in> fst ` set t")
  case True
  with assms have "t' = replace_column t name col"
    by (simp add: set_column_def colnames_def split: if_splits)
  with True show ?thesis
    by (simp add: get_column_def map_of_replace_column)
next
  case False
  then have "map_of t name = None"
    by (simp add: map_of_eq_None_iff)
  with assms False show ?thesis
    by (auto simp: set_column_def get_column_def colnames_def map_add_def split: if_splits)
qed

lemma set_column_names:
  "set_column t name col = Inr t' \<Longrightarrow> name \<in> S \<Longrightarrow>
   filter (\<lambda>n. n \<notin> S) (colnames t') = filter (\<lambda>n. n \<notin> S) (colnames t)"
  by (auto simp: set_column_def colnames_def colnames_replace_column split: if_splits)

lemma saved_columns:
  assumes "saved env a cat rec t'"
  shows "same_other_columns cat t'
    \<and> get_column t' ''RA'' = Some (fst (snd (cartesian_to_sky env rec)))
    \<and> get_column t' ''DEC'' = Some (snd (snd (cartesian_to_sky env rec)))
    \<and> get_column t' ''Z''
        = Some (DistanceToRedshift env (distance a) (fst (cartesian_to_sky env rec)))"
proof -
  let ?ra = "fst (snd (cartesian_to_sky env rec))"
  let ?dec = "snd (snd (cartesian_to_sky env rec))"
  let ?z = "DistanceToRedshift env (distance a) (fst (cartesian_to_sky env rec))"
  from assms obtain c1 c2 where 1: "set_column cat ''RA'' ?ra = Inr c1"
    and 2: "set_column c1 ''DEC'' ?dec = Inr c2"
    and 3: "set_column c2 ''Z'' ?z = Inr t'"
    by (auto simp: saved_def split_def)
  have other: "get_column t' n = get_column cat n" if "n \<notin> {''RA'', ''DEC'', ''Z''}" for n
    using that set_column_other [OF 1, of n] set_column_other [OF 2, of n]
      set_column_other [OF 3, of n] by simp
  have names: "filter (\<lambda>n. n \<notin> {''RA'', ''DEC'', ''Z''}) (colnames t')
      = filter (\<lambda>n. n \<notin> {''RA'', ''DEC'', ''Z''}) (colnames cat)"
    using set_column_names [OF 1, of "{''RA'', ''DEC'', ''Z''}"]
      set_column_names [OF 2, of "{''RA'', ''DEC'', ''Z''}"]
      set_column_names [OF 3, of "{''RA'', ''DEC'', ''Z''}"] by simp
  have ra: "get_column t' ''RA'' = Some ?ra"
    using set_column_this [OF 1] set_column_other [OF 2, of "''RA''"]
      set_column_other [OF 3, of "''RA''"] by simp
  have dec: "get_column t' ''DEC'' = Some ?dec"
    using set_column_this [OF 2] set_column_other [OF 3, of "''DEC''"] by simp
  have z: "get_column t' ''Z'' = Some ?z"
    using set_column_this [OF 3] .
  from other names ra dec z show ?thesis
    by (simp add: same_other_columns_def)
qed

section \<open>The randoms assigned before the density contrast is set\<close>

lemma randoms_call_shape:
  "randoms_call e =
     (case shape e of
        ReadsPositionsWeights fn return_mask \<Rightarrow> \<not> return_mask
      | AssignsRandoms p w \<Rightarrow> True
      | _ \<Rightarrow> False)"
  by (cases e rule: shape.cases) simp_all

lemma randoms_call_assign_shapes:
  "map shape rnd = assign_shapes a fns \<Longrightarrow> filter randoms_call rnd = rnd"
proof -
  assume m: "map shape rnd = assign_shapes a fns"
  have "randoms_call e" if "e \<in> set rnd" for e
  proof -
    from that have "shape e \<in> set (map shape rnd)"
      by simp
    then have "shape e \<in> set (assign_shapes a fns)"
      by (simp only: m)
    then show ?thesis
      by (auto simp: assign_shapes_def randoms_call_shape split: if_splits)
  qed
  then show ?thesis
    by simp
qed

lemma assigned_blocks:
  assumes root: "is_root a"
  shows "all_ok env a (pre @ rnd) \<Longrightarrow> map shape rnd = assign_shapes a fns \<Longrightarrow>
     \<exists>rs. length rs = length fns
       \<and> rnd = concat (map (\<lambda>(fn, r).
             [ReadPositionsWeights fn False (Inr r),
              AssignRandoms (Some (positions_of env a r)) (Some (weights_of r))])
           (zip fns rs))"
proof (induction fns arbitrary: pre rnd)
  case Nil
  then show ?case
    by (simp add: assign_shapes_def)
next
  case (Cons fn fns)
  from Cons.prems(2) root obtain e1 e2 rnd' where rnd: "rnd = e1 # e2 # rnd'"
    and s1: "shape e1 = ReadsPositionsWeights fn False"
    and s2: "shape e2 = AssignsRandoms True True"
    and m: "map shape rnd' = assign_shapes a fns"
    by (auto simp: assign_shapes_Cons map_eq_Cons_conv)
  from s2 obtain q w where e2: "e2 = AssignRandoms q w" and q: "q \<noteq> None"
    by (cases e2 rule: shape.cases) simp_all
  from Cons.prems(1) have "event_ok env a (pre @ [e1]) e2"
    unfolding all_ok_def rnd by (elim allE [of _ "pre @ [e1]"] allE [of _ e2] allE [of _ rnd']) simp
  with e2 q obtain h fn' r where h: "pre @ [e1] = h @ [ReadPositionsWeights fn' False (Inr r)]"
    and qw: "q = Some (positions_of env a r)" "w = Some (weights_of r)"
    by auto
  from h have "e1 = ReadPositionsWeights fn' False (Inr r)"
    by simp
  with s1 have e1: "e1 = ReadPositionsWeights fn False (Inr r)"
    by simp
  from Cons.prems(1) have "all_ok env a ((pre @ [e1, e2]) @ rnd')"
    by (simp add: rnd)
  from Cons.IH [OF this m] obtain rs where rs: "length rs = length fns"
    "rnd' = concat (map (\<lambda>(fn, r).
             [ReadPositionsWeights fn False (Inr r),
              AssignRandoms (Some (positions_of env a r)) (Some (weights_of r))])
           (zip fns rs))"
    by blast
  show ?case
    by (rule exI [of _ "r # rs"]) (simp add: rnd e1 e2 qw rs)
qed

lemma unassigned_blocks:
  "map shape rnd = replicate n (AssignsRandoms False False) \<Longrightarrow>
   rnd = replicate n (AssignRandoms None None)"
proof (induction n arbitrary: rnd)
  case 0
  then show ?case by simp
next
  case (Suc n)
  then obtain e rnd' where rnd: "rnd = e # rnd'" and s: "shape e = AssignsRandoms False False"
    and m: "map shape rnd' = replicate n (AssignsRandoms False False)"
    by (auto simp: map_eq_Cons_conv)
  from s have "e = AssignRandoms None None"
    by (cases e rule: shape.cases) simp_all
  with Suc.IH [OF m] rnd show ?case
    by simp
qed

lemma assign_shapes_other:
  "\<not> is_root a \<Longrightarrow> assign_shapes a fns = replicate (length fns) (AssignsRandoms False False)"
  by (induction fns) (simp_all add: assign_shapes_Cons, simp add: assign_shapes_def)

lemma randoms_before_density:
  assumes c: "calls env a files = es1 @ SetDensityContrast sr # es2"
  shows "\<exists>pre rnd. es1 = pre @ rnd \<and> filter randoms_call pre = []
      \<and> map shape rnd = assign_shapes a (entries (randoms_fn a))"
proof -
  from c have "map shape es1 = before_density a"
    by (rule density_after_randoms)
  then obtain us vs where uv: "es1 = us @ vs" and us: "map shape us = load_shapes a"
    and vs: "map shape vs = Constructs (Reconstruction a) (is_root a)
        # AssignsData (is_root a) (is_root a) # assign_shapes a (entries (randoms_fn a))"
    by (auto simp: before_density_def wrap_scalar_entries map_eq_append_conv)
  from vs obtain z za rnd where v: "vs = z # za # rnd"
    and z: "shape z = Constructs (Reconstruction a) (is_root a)"
    and za: "shape za = AssignsData (is_root a) (is_root a)"
    and rnd: "map shape rnd = assign_shapes a (entries (randoms_fn a))"
    by (auto simp: map_eq_Cons_conv)
  define pre where "pre = us @ [z, za]"
  have es1: "es1 = pre @ rnd"
    by (simp add: pre_def uv v)
  have pre: "map shape pre = load_shapes a
        @ [Constructs (Reconstruction a) (is_root a), AssignsData (is_root a) (is_root a)]"
    by (simp add: pre_def us z za)
  have "\<not> randoms_call e" if "e \<in> set pre" for e
  proof -
    from that have "shape e \<in> set (map shape pre)"
      by simp
    then show ?thesis
      unfolding pre by (auto simp: load_shapes_def randoms_call_shape split: if_splits)
  qed
  then have "filter randoms_call pre = []"
    by (simp add: filter_empty_conv)
  with es1 rnd show ?thesis
    by blast
qed

text \<open>
  C1. In every run the lifecycle steps occur in the stated order: construct, assign data
  once, assign randoms once per entry of \<^verbatim>\<open>randoms_fn\<close>, set density contrast, run, and
  then the reading of shifted positions and the writing of catalogs. A run that an
  exception ends has made a prefix of these steps; a run that returns has made all of
  them. Whenever \<^verbatim>\<open>set_density_contrast\<close> is called, every entry of \<^verbatim>\<open>randoms_fn\<close>
  has been assigned before: the calls before it contain one \<^verbatim>\<open>assign_randoms\<close> per
  entry; on the root rank (no communicator, or rank 0) they are, entry by entry and in
  the order of the entries, the reading of that file and the \<^verbatim>\<open>assign_randoms\<close> of the
  positions and weights made of what was read; on another rank each \<^verbatim>\<open>assign_randoms\<close>
  gets \<^verbatim>\<open>None\<close> positions and weights.
\<close>

theorem lifecycle_order:
  "prefix (List.map_filter step_of (map shape (calls env a files))) (lifecycle a)
   \<and> (outcome env a files = Inr () \<longrightarrow>
        List.map_filter step_of (map shape (calls env a files)) = lifecycle a)
   \<and> (\<forall>es1 sr es2. calls env a files = es1 @ SetDensityContrast sr # es2 \<longrightarrow>
        length (filter (\<lambda>e. step_of (shape e) = Some StAssignRandoms) es1)
          = length (entries (randoms_fn a))
        \<and> (mpicomm a = None \<or> mpicomm a = Some 0 \<longrightarrow>
             (\<exists>rs. length rs = length (entries (randoms_fn a))
                \<and> filter randoms_call es1
                    = concat (map (\<lambda>(fn, r).
                        [ReadPositionsWeights fn False (Inr r),
                         AssignRandoms (Some (positions_of env a r)) (Some (weights_of r))])
                      (zip (entries (randoms_fn a)) rs))))
        \<and> ((\<exists>rank. mpicomm a = Some rank \<and> rank \<noteq> 0) \<longrightarrow>
             filter randoms_call es1
               = replicate (length (entries (randoms_fn a))) (AssignRandoms None None)))"
proof (intro conjI allI impI)
  show "prefix (List.map_filter step_of (map shape (calls env a files))) (lifecycle a)"
    using map_filter_prefix [OF run_shapes_prefix, of step_of env a files]
    by (simp add: steps_expected)
next
  assume "outcome env a files = Inr ()"
  then show "List.map_filter step_of (map shape (calls env a files)) = lifecycle a"
    by (simp add: run_shapes_complete steps_expected)
next
  fix es1 sr es2
  assume "calls env a files = es1 @ SetDensityContrast sr # es2"
  then have m: "map shape es1 = before_density a"
    by (rule density_after_randoms)
  have "length (filter (\<lambda>e. step_of (shape e) = Some StAssignRandoms) es1)
      = length (filter (\<lambda>x. step_of x = Some StAssignRandoms) (map shape es1))"
    by (simp add: filter_map comp_def)
  also have "\<dots> = length (filter (\<lambda>z. z = StAssignRandoms)
      (List.map_filter step_of (before_density a)))"
    by (simp only: m count_map_filter)
  also have "\<dots> = length (entries (randoms_fn a))"
    by (simp add: steps_before wrap_scalar_entries)
  finally show "length (filter (\<lambda>e. step_of (shape e) = Some StAssignRandoms) es1)
          = length (entries (randoms_fn a))" .
next
  fix es1 sr es2
  assume c: "calls env a files = es1 @ SetDensityContrast sr # es2"
    and "mpicomm a = None \<or> mpicomm a = Some 0"
  then have root: "is_root a"
    by (auto simp: is_root_def)
  from randoms_before_density [OF c] obtain pre rnd where es1: "es1 = pre @ rnd"
    and pre: "filter randoms_call pre = []"
    and rnd: "map shape rnd = assign_shapes a (entries (randoms_fn a))"
    by blast
  from run_all_ok [of env a files] have "all_ok env a es1"
    by (simp only: c all_ok_append)
  then have "all_ok env a (pre @ rnd)"
    by (simp only: es1)
  from assigned_blocks [OF root this rnd] obtain rs
    where rs: "length rs = length (entries (randoms_fn a))"
      "rnd = concat (map (\<lambda>(fn, r).
             [ReadPositionsWeights fn False (Inr r),
              AssignRandoms (Some (positions_of env a r)) (Some (weights_of r))])
           (zip (entries (randoms_fn a)) rs))"
    by blast
  have "filter randoms_call es1 = rnd"
    by (simp add: es1 pre randoms_call_assign_shapes [OF rnd])
  with rs show "\<exists>rs. length rs = length (entries (randoms_fn a))
                \<and> filter randoms_call es1
                    = concat (map (\<lambda>(fn, r).
                        [ReadPositionsWeights fn False (Inr r),
                         AssignRandoms (Some (positions_of env a r)) (Some (weights_of r))])
                      (zip (entries (randoms_fn a)) rs))"
    by (intro exI [of _ rs]) simp
next
  fix es1 sr es2
  assume c: "calls env a files = es1 @ SetDensityContrast sr # es2"
    and "\<exists>rank. mpicomm a = Some rank \<and> rank \<noteq> 0"
  then have nr: "\<not> is_root a"
    by (auto simp: is_root_def)
  from randoms_before_density [OF c] obtain pre rnd where es1: "es1 = pre @ rnd"
    and pre: "filter randoms_call pre = []"
    and rnd: "map shape rnd = assign_shapes a (entries (randoms_fn a))"
    by blast
  from rnd have "rnd = replicate (length (entries (randoms_fn a))) (AssignRandoms None None)"
    by (intro unassigned_blocks) (simp add: assign_shapes_other [OF nr])
  moreover have "filter randoms_call es1 = rnd"
    by (simp add: es1 pre randoms_call_assign_shapes [OF rnd])
  ultimately show "filter randoms_call es1
      = replicate (length (entries (randoms_fn a))) (AssignRandoms None None)"
    by simp
qed

theorem lifecycle_order_witness:
  "outcome survey_env survey_args survey_files = Inr ()
   \<and> entries (randoms_fn survey_args) = [''in/r1'', ''in/r2'']
   \<and> List.map_filter step_of (map shape (calls survey_env survey_args survey_files))
       = [StConstruct, StAssignData, StAssignRandoms, StAssignRandoms, StSetDensityContrast,
          StRun, StReadShifted, StWrite, StReadShifted, StWrite, StReadShifted, StWrite]
   \<and> calls survey_env survey_args survey_files
       = take 8 (calls survey_env survey_args survey_files)
         @ SetDensityContrast 15 # drop 9 (calls survey_env survey_args survey_files)
   \<and> length (filter (\<lambda>e. step_of (shape e) = Some StAssignRandoms)
         (take 8 (calls survey_env survey_args survey_files))) = 2
   \<and> mpicomm survey_args = None
   \<and> (\<exists>rs. length rs = 2
         \<and> filter randoms_call (take 8 (calls survey_env survey_args survey_files))
             = concat (map (\<lambda>(fn, r).
                 [ReadPositionsWeights fn False (Inr r),
                  AssignRandoms (Some (positions_of survey_env survey_args r))
                    (Some (weights_of r))])
               (zip [''in/r1'', ''in/r2''] rs)))
   \<and> filter randoms_call (take 8 (calls survey_env survey_args survey_files))
       = [ReadPositionsWeights ''in/r1'' False
            (Inr (([30, 50], [1, 3], [2, 3]), [1, 1], [True, False, True])),
          AssignRandoms (Some ([4, 6], [30, 50], [1, 3])) (Some [1, 1]),
          ReadPositionsWeights ''in/r2'' False (Inr (([60], [7], [4]), [1], [True])),
          AssignRandoms (Some ([8], [60], [7])) (Some [1])]
   \<and> outcome survey_env scalar_args survey_files = Inr ()
   \<and> entries (randoms_fn scalar_args) = [''in/r1'']
   \<and> List.map_filter step_of (map shape (calls survey_env scalar_args survey_files))
       = [StConstruct, StAssignData, StAssignRandoms, StSetDensityContrast,
          StRun, StReadShifted, StWrite, StReadShifted, StWrite]
   \<and> calls survey_env scalar_args survey_files
       = take 6 (calls survey_env scalar_args survey_files)
         @ SetDensityContrast 15 # drop 7 (calls survey_env scalar_args survey_files)
   \<and> length (filter (\<lambda>e. step_of (shape e) = Some StAssignRandoms)
         (take 6 (calls survey_env scalar_args survey_files))) = 1
   \<and> mpicomm demo_args_rank1 = Some 1
   \<and> calls demo_env demo_args_rank1 demo_files
       = take 3 (calls demo_env demo_args_rank1 demo_files)
         @ SetDensityContrast 15 # drop 4 (calls demo_env demo_args_rank1 demo_files)
   \<and> filter randoms_call (take 3 (calls demo_env demo_args_rank1 demo_files))
       = [AssignRandoms None None]"
proof -
  note survey = lifecycle_order [of survey_env survey_args survey_files]
  note scalar = lifecycle_order [of survey_env scalar_args survey_files]
  note rank1 = lifecycle_order [of demo_env demo_args_rank1 demo_files]
  have e: "entries (randoms_fn survey_args) = [''in/r1'', ''in/r2'']"
    and m: "mpicomm survey_args = None"
    by (simp_all add: survey_args_def demo_args_def)
  have l: "lifecycle survey_args
      = [StConstruct, StAssignData, StAssignRandoms, StAssignRandoms, StSetDensityContrast,
         StRun, StReadShifted, StWrite, StReadShifted, StWrite, StReadShifted, StWrite]"
    by (simp add: lifecycle_def outputs_def survey_args_def demo_args_def iterate_def
        is_root_def)
  have split: "calls survey_env survey_args survey_files
       = take 8 (calls survey_env survey_args survey_files)
         @ SetDensityContrast 15 # drop 9 (calls survey_env survey_args survey_files)"
    by (simp add: survey_run)
  from survey survey_run(1) l
  have steps: "List.map_filter step_of (map shape (calls survey_env survey_args survey_files))
       = [StConstruct, StAssignData, StAssignRandoms, StAssignRandoms, StSetDensityContrast,
          StRun, StReadShifted, StWrite, StReadShifted, StWrite, StReadShifted, StWrite]"
    by simp
  note d = survey [THEN conjunct2, THEN conjunct2, THEN spec, THEN spec, THEN spec, THEN mp,
      OF split]
  from d e have n: "length (filter (\<lambda>e. step_of (shape e) = Some StAssignRandoms)
         (take 8 (calls survey_env survey_args survey_files))) = 2"
    by simp
  from d [THEN conjunct2, THEN conjunct1] m e
  have ex: "\<exists>rs. length rs = 2
         \<and> filter randoms_call (take 8 (calls survey_env survey_args survey_files))
             = concat (map (\<lambda>(fn, r).
                 [ReadPositionsWeights fn False (Inr r),
                  AssignRandoms (Some (positions_of survey_env survey_args r))
                    (Some (weights_of r))])
               (zip [''in/r1'', ''in/r2''] rs))"
    by (simp add: numeral_2_eq_2)
  have f: "filter randoms_call (take 8 (calls survey_env survey_args survey_files))
       = [ReadPositionsWeights ''in/r1'' False
            (Inr (([30, 50], [1, 3], [2, 3]), [1, 1], [True, False, True])),
          AssignRandoms (Some ([4, 6], [30, 50], [1, 3])) (Some [1, 1]),
          ReadPositionsWeights ''in/r2'' False (Inr (([60], [7], [4]), [1], [True])),
          AssignRandoms (Some ([8], [60], [7])) (Some [1])]"
    by (simp add: survey_run)
  have e': "entries (randoms_fn scalar_args) = [''in/r1'']"
    by (simp add: scalar_args_def demo_args_def)
  have l': "lifecycle scalar_args
      = [StConstruct, StAssignData, StAssignRandoms, StSetDensityContrast,
         StRun, StReadShifted, StWrite, StReadShifted, StWrite]"
    by (simp add: lifecycle_def outputs_def scalar_args_def demo_args_def iterate_def
        is_root_def)
  have split': "calls survey_env scalar_args survey_files
       = take 6 (calls survey_env scalar_args survey_files)
         @ SetDensityContrast 15 # drop 7 (calls survey_env scalar_args survey_files)"
    by (simp add: scalar_run)
  from scalar scalar_run(1) l'
  have steps': "List.map_filter step_of (map shape (calls survey_env scalar_args survey_files))
       = [StConstruct, StAssignData, StAssignRandoms, StSetDensityContrast,
          StRun, StReadShifted, StWrite, StReadShifted, StWrite]"
    by simp
  from scalar [THEN conjunct2, THEN conjunct2, THEN spec, THEN spec, THEN spec, THEN mp,
      OF split'] e'
  have n': "length (filter (\<lambda>e. step_of (shape e) = Some StAssignRandoms)
         (take 6 (calls survey_env scalar_args survey_files))) = 1"
    by simp
  have m1: "mpicomm demo_args_rank1 = Some 1"
    and e1: "entries (randoms_fn demo_args_rank1) = [''in/r'']"
    by (simp_all add: demo_args_rank1_def demo_args_def)
  have split1: "calls demo_env demo_args_rank1 demo_files
       = take 3 (calls demo_env demo_args_rank1 demo_files)
         @ SetDensityContrast 15 # drop 4 (calls demo_env demo_args_rank1 demo_files)"
    by (simp add: rank1_run)
  from rank1 [THEN conjunct2, THEN conjunct2, THEN spec, THEN spec, THEN spec, THEN mp,
      OF split1, THEN conjunct2, THEN conjunct2] m1 e1
  have f1: "filter randoms_call (take 3 (calls demo_env demo_args_rank1 demo_files))
       = [AssignRandoms None None]"
    by simp
  from survey_run(1) e steps split n m ex f scalar_run(1) e' steps' split' n' m1 split1 f1
  show ?thesis
    by (intro conjI)
qed

section \<open>The catalogs that a run writes\<close>

lemma written_catalog:
  assumes c: "calls env a files = es1 @ TableWrite fn t' fmt ow # es2"
  shows "fmt = ''fits'' \<and> ow
    \<and> (\<exists>h tgt field rec src t r cat.
          es1 = h @ [ReadShiftedPositions tgt field rec, Mkdir (dirname fn)]
          \<and> rec = read_shifted_positions env h tgt field
          \<and> catalog_source env a h tgt src fn t r
          \<and> select_rows t (mask_of r) = Inr cat
          \<and> saved env a cat rec t')"
proof -
  note ok = run_all_ok [of env a files]
  from ok c have "event_ok env a es1 (TableWrite fn t' fmt ow)"
    unfolding all_ok_def by blast
  then obtain h tgt field rec src t r cat where f: "fmt = ''fits''" "ow"
    and es1: "es1 = h @ [ReadShiftedPositions tgt field rec, Mkdir (dirname fn)]"
    and src: "catalog_source env a h tgt src fn t r"
    and sel: "select_rows t (mask_of r) = Inr cat"
    and sv: "saved env a cat rec t'"
    by auto
  from c es1 have "calls env a files = h @ ReadShiftedPositions tgt field rec
      # (Mkdir (dirname fn) # TableWrite fn t' fmt ow # es2)"
    by simp
  with ok have "event_ok env a h (ReadShiftedPositions tgt field rec)"
    unfolding all_ok_def by blast
  then have "rec = read_shifted_positions env h tgt field"
    by simp
  with f es1 src sel sv show ?thesis
    by blast
qed

lemma randoms_readD:
  "randoms_read h src t r \<Longrightarrow>
   last h = ReadPositionsWeights src True (Inr r) \<and> last (butlast h) = TableRead src (Some t)"
  by (auto simp: randoms_read_def butlast_append)

text \<open>
  C4. Every table that a run writes is written in the FITS format with overwrite enabled,
  and the two calls just before the write are the read of the shifted positions of its
  catalog and the creation of the directory of its path. The catalog is the table read
  from the input file that belongs to the output file, restricted to the rows of the mask
  of the reader: for \<^verbatim>\<open>data_rec_fn\<close> the data file, read in the first two calls of the
  run, and for the output file of a randoms file that file, read in the two calls just
  before the shifted positions. The columns other than RA, DEC and Z are those of the
  selected table, cell by cell and in the same order, and RA, DEC and Z hold the sky
  coordinates and the redshift of these shifted positions. This holds of every write, also
  in a run that an exception ends later.
\<close>

theorem written_catalog_frame:
  assumes "calls env a files = es1 @ TableWrite fn t' fmt ow # es2"
  shows "fmt = ''fits'' \<and> ow
    \<and> (\<exists>h tgt field rec src t r cat.
          es1 = h @ [ReadShiftedPositions tgt field rec, Mkdir (dirname fn)]
          \<and> rec = read_shifted_positions env h tgt field
          \<and> catalog_source env a h tgt src fn t r
          \<and> select_rows t (mask_of r) = Inr cat
          \<and> same_other_columns cat t'
          \<and> get_column t' ''RA'' = Some (fst (snd (cartesian_to_sky env rec)))
          \<and> get_column t' ''DEC'' = Some (snd (snd (cartesian_to_sky env rec)))
          \<and> get_column t' ''Z''
              = Some (DistanceToRedshift env (distance a) (fst (cartesian_to_sky env rec))))"
proof -
  from written_catalog [OF assms] obtain h tgt field rec src t r cat
    where f: "fmt = ''fits''" "ow"
      and k: "es1 = h @ [ReadShiftedPositions tgt field rec, Mkdir (dirname fn)]"
        "rec = read_shifted_positions env h tgt field"
        "catalog_source env a h tgt src fn t r"
        "select_rows t (mask_of r) = Inr cat"
      and sv: "saved env a cat rec t'"
    by blast
  from f k saved_columns [OF sv] show ?thesis
    by blast
qed

lemma two_last:
  "es = h @ [x, y] \<Longrightarrow> h = butlast (butlast es) \<and> x = last (butlast es) \<and> y = last es"
  by (simp add: butlast_append)

theorem written_catalog_frame_witness:
  "calls survey_env survey_args survey_files
     = take 12 (calls survey_env survey_args survey_files)
       @ TableWrite ''out/d'' [(''RA'', [21]), (''W'', [2]), (''DEC'', [4]), (''Z'', [2])]
           ''fits'' True
       # drop 13 (calls survey_env survey_args survey_files)
   \<and> take 12 (calls survey_env survey_args survey_files)
     = take 10 (calls survey_env survey_args survey_files)
       @ [ReadShiftedPositions (Array (Some ([2], [20], [5]))) ''disp+rsd'' ([4], [21], [4]),
          Mkdir ''out'']
   \<and> select_rows demo_table [False, True]
     = Inr [(''RA'', [20]), (''W'', [2]), (''DEC'', [5]), (''Z'', [1])]
   \<and> same_other_columns [(''RA'', [20]), (''W'', [2]), (''DEC'', [5]), (''Z'', [1])]
        [(''RA'', [21]), (''W'', [2]), (''DEC'', [4]), (''Z'', [2])]
   \<and> get_column [(''RA'', [21]), (''W'', [2]), (''DEC'', [4]), (''Z'', [2])] ''RA''
     = Some (fst (snd (cartesian_to_sky survey_env ([4], [21], [4]))))
   \<and> get_column [(''RA'', [21]), (''W'', [2]), (''DEC'', [4]), (''Z'', [2])] ''DEC''
     = Some (snd (snd (cartesian_to_sky survey_env ([4], [21], [4]))))
   \<and> get_column [(''RA'', [21]), (''W'', [2]), (''DEC'', [4]), (''Z'', [2])] ''Z''
     = Some (DistanceToRedshift survey_env (distance survey_args)
               (fst (cartesian_to_sky survey_env ([4], [21], [4]))))
   \<and> calls survey_env survey_args survey_files
     = take 22 (calls survey_env survey_args survey_files)
       @ TableWrite ''out/r2'' [(''RA'', [61]), (''DEC'', [6]), (''Z'', [5]), (''ID'', [9])]
           ''fits'' True
       # drop 23 (calls survey_env survey_args survey_files)
   \<and> take 22 (calls survey_env survey_args survey_files)
     = take 18 (calls survey_env survey_args survey_files)
       @ [TableRead ''in/r2'' (Some randoms_b),
          ReadPositionsWeights ''in/r2'' True (Inr (([60], [7], [4]), [1], [True])),
          ReadShiftedPositions (Array (Some ([8], [60], [7]))) ''disp'' ([10], [61], [6]),
          Mkdir ''out'']
   \<and> select_rows randoms_b [True] = Inr randoms_b
   \<and> same_other_columns randoms_b
        [(''RA'', [61]), (''DEC'', [6]), (''Z'', [5]), (''ID'', [9])]
   \<and> get_column [(''RA'', [61]), (''DEC'', [6]), (''Z'', [5]), (''ID'', [9])] ''RA''
     = Some (fst (snd (cartesian_to_sky survey_env ([10], [61], [6]))))
   \<and> get_column [(''RA'', [61]), (''DEC'', [6]), (''Z'', [5]), (''ID'', [9])] ''ID''
     = get_column randoms_b ''ID''
   \<and> get_column randoms_b ''RA'' = Some [60]"
proof -
  let ?S = "calls survey_env survey_args survey_files"
  let ?Td = "[(''RA'', [21]), (''W'', [2]), (''DEC'', [4]), (''Z'', [2])]"
  let ?Tr = "[(''RA'', [61]), (''DEC'', [6]), (''Z'', [5]), (''ID'', [9])]"
  have args: "data_fn survey_args = ''in/d''" "data_rec_fn survey_args = ''out/d''"
    by (simp_all add: survey_args_def demo_args_def)
  have splitd: "?S = take 12 ?S @ TableWrite ''out/d'' ?Td ''fits'' True # drop 13 ?S"
    by (simp add: survey_run)
  have befored: "take 12 ?S = take 10 ?S
       @ [ReadShiftedPositions (Array (Some ([2], [20], [5]))) ''disp+rsd'' ([4], [21], [4]),
          Mkdir ''out'']"
    by (simp add: survey_run)
  have seld: "select_rows demo_table [False, True]
     = Inr [(''RA'', [20]), (''W'', [2]), (''DEC'', [5]), (''Z'', [1])]"
    by (simp add: select_rows_def demo_table_def nrows_def mask_column_def)
  from written_catalog_frame [OF splitd] obtain h tgt field rec src t r cat
    where k: "take 12 ?S = h @ [ReadShiftedPositions tgt field rec, Mkdir (dirname ''out/d'')]"
      and src: "catalog_source survey_env survey_args h tgt src ''out/d'' t r"
      and sel: "select_rows t (mask_of r) = Inr cat"
      and so: "same_other_columns cat ?Td"
      and ra: "get_column ?Td ''RA'' = Some (fst (snd (cartesian_to_sky survey_env rec)))"
      and dec: "get_column ?Td ''DEC'' = Some (snd (snd (cartesian_to_sky survey_env rec)))"
      and z: "get_column ?Td ''Z''
          = Some (DistanceToRedshift survey_env (distance survey_args)
                    (fst (cartesian_to_sky survey_env rec)))"
    by blast
  from two_last [OF k] have h: "h = take 10 ?S" and rec: "rec = ([4], [21], [4])"
    by (simp_all add: survey_run)
  from src have "t = demo_table \<and> r = (([20], [5], [1]), [1], [False, True])"
    unfolding catalog_source_def h
    by (auto simp: data_read_def survey_run args dest!: randoms_readD)
  with sel seld have cat: "cat = [(''RA'', [20]), (''W'', [2]), (''DEC'', [5]), (''Z'', [1])]"
    by (simp add: mask_of_def)
  have splitr: "?S = take 22 ?S @ TableWrite ''out/r2'' ?Tr ''fits'' True # drop 23 ?S"
    by (simp add: survey_run)
  have beforer: "take 22 ?S = take 18 ?S
       @ [TableRead ''in/r2'' (Some randoms_b),
          ReadPositionsWeights ''in/r2'' True (Inr (([60], [7], [4]), [1], [True])),
          ReadShiftedPositions (Array (Some ([8], [60], [7]))) ''disp'' ([10], [61], [6]),
          Mkdir ''out'']"
    by (simp add: survey_run)
  have selr: "select_rows randoms_b [True] = Inr randoms_b"
    by (simp add: select_rows_def randoms_b_def nrows_def mask_column_def)
  from written_catalog_frame [OF splitr] obtain h' tgt' field' rec' src' t' r' cat'
    where k': "take 22 ?S
          = h' @ [ReadShiftedPositions tgt' field' rec', Mkdir (dirname ''out/r2'')]"
      and src': "catalog_source survey_env survey_args h' tgt' src' ''out/r2'' t' r'"
      and sel': "select_rows t' (mask_of r') = Inr cat'"
      and so': "same_other_columns cat' ?Tr"
      and ra': "get_column ?Tr ''RA'' = Some (fst (snd (cartesian_to_sky survey_env rec')))"
    by blast
  from two_last [OF k'] have h': "h' = take 20 ?S" and rec': "rec' = ([10], [61], [6])"
    by (simp_all add: survey_run)
  from src' have "t' = randoms_b \<and> r' = (([60], [7], [4]), [1], [True])"
    unfolding catalog_source_def h'
    by (auto simp: data_read_def survey_run args dest!: randoms_readD)
  with sel' selr have cat': "cat' = randoms_b"
    by (simp add: mask_of_def)
  from so' have id: "get_column ?Tr ''ID'' = get_column randoms_b ''ID''"
    unfolding cat' same_other_columns_def by simp
  have in_ra: "get_column randoms_b ''RA'' = Some [60]"
    by (simp add: get_column_def randoms_b_def)
  from splitd befored seld so [unfolded cat] ra [unfolded rec] dec [unfolded rec]
    z [unfolded rec] splitr beforer selr so' [unfolded cat'] ra' [unfolded rec'] id in_ra
  show ?thesis
    by (intro conjI)
qed

section \<open>The conversion between sky coordinates and positions\<close>







section \<open>A rank other than the root\<close>

text \<open>
  Rules for \<open>hoare\<close>, and the proof that a run on a rank other than the root returns and
  leaves the files as they are.
\<close>

lemma hoare_return: "(\<And>w. P w \<Longrightarrow> Q x w) \<Longrightarrow> hoare P (return x) Q E"
  by (simp add: hoare_def return_def)

lemma hoareD:
  "hoare P m Q E \<Longrightarrow> P w \<Longrightarrow>
   (case fst (m w) of Inr x \<Rightarrow> Q x (snd (m w)) | Inl e \<Rightarrow> E (snd (m w)))"
  unfolding hoare_def by (elim allE [of _ w]) simp

lemma hoare_bind:
  assumes m: "hoare P m R E" and k: "\<And>x. hoare (R x) (k x) Q E"
  shows "hoare P (bind m k) Q E"
  unfolding hoare_def
proof (intro allI impI)
  fix w
  assume p: "P w"
  obtain r w' where mw: "m w = (r, w')"
    by (cases "m w")
  show "case fst (bind m k w) of Inr x \<Rightarrow> Q x (snd (bind m k w)) | Inl e \<Rightarrow> E (snd (bind m k w))"
  proof (cases r)
    case (Inl e)
    with hoareD [OF m p] mw show ?thesis
      by (simp add: bind_def)
  next
    case (Inr x)
    with hoareD [OF m p] mw have "R x w'"
      by simp
    from hoareD [OF k this]
    have "case fst (k x w') of Inr y \<Rightarrow> Q y (snd (k x w')) | Inl e \<Rightarrow> E (snd (k x w'))" .
    then show ?thesis
      unfolding bind_Inr [of m w x k, simplified mw Inr fst_conv snd_conv, OF refl] .
  qed
qed

lemma hoare_call: "(\<And>w. P w \<Longrightarrow> Q () (log_event e w)) \<Longrightarrow> hoare P (call e) Q E"
  by (simp add: hoare_def call_def)

lemma hoare_read_shifted:
  "(\<And>w. P w \<Longrightarrow>
      Q (read_shifted_positions env (trace w) tgt field)
        (log_event (ReadShiftedPositions tgt field
           (read_shifted_positions env (trace w) tgt field)) w))
   \<Longrightarrow> hoare P (read_shifted env tgt field) Q E"
  by (simp add: hoare_def read_shifted_def Let_def)

lemma quiet_assign_randoms_loop:
  fixes env :: "'p env"
  assumes "\<not> is_root a"
  shows "hoare (\<lambda>w. fs w = files) (assign_randoms_loop env a fns s)
     (\<lambda>s' w. fs w = files) (\<lambda>w. False)"
proof (induction fns arbitrary: s)
  case Nil
  then show ?case
    by (cases s) (simp add: hoare_return)
next
  case (Cons fn fns)
  obtain rp rw where s: "s = (rp, rw)"
    by (cases s)
  let ?F = "\<lambda>w :: 'p world. fs w = files"
  have "hoare ?F (bind (call (AssignRandoms rp rw)) (\<lambda>_.
           assign_randoms_loop env a fns (rp, rw))) (\<lambda>s'. ?F) (\<lambda>w. False)"
    by (rule hoare_bind [OF _ Cons.IH], rule hoare_call) simp
  then have "hoare ?F (bind (return (rp, rw)) (\<lambda>(randoms_positions, randoms_weights).
           bind (call (AssignRandoms randoms_positions randoms_weights)) (\<lambda>_.
           assign_randoms_loop env a fns (randoms_positions, randoms_weights))))
        (\<lambda>s'. ?F) (\<lambda>w. False)"
    by (simp add: hoare_def bind_def return_def)
  with assms show ?case
    by (simp add: s)
qed

lemma quiet_shift_randoms_loop:
  fixes env :: "'p env"
  assumes "\<not> is_root a"
  shows "hoare (\<lambda>w. fs w = files) (shift_randoms_loop env a field pairs s)
     (\<lambda>u w. fs w = files) (\<lambda>w. False)"
proof (induction pairs arbitrary: s)
  case Nil
  then show ?case
    by (cases s) (simp add: hoare_return)
next
  case (Cons pair pairs)
  obtain fn rec_fn where pair: "pair = (fn, rec_fn)"
    by (cases pair)
  obtain catalog rp where s: "s = (catalog, rp)"
    by (cases s)
  let ?F = "\<lambda>w :: 'p world. fs w = files"
  have "hoare ?F (bind (return catalog) (\<lambda>catalog.
       shift_randoms_loop env a field pairs (catalog, rp))) (\<lambda>u. ?F) (\<lambda>w. False)"
    by (rule hoare_bind [OF _ Cons.IH], rule hoare_return) simp
  then have "hoare ?F (bind (read_shifted env (Array rp) field) (\<lambda>randoms_positions_rec.
       bind (return catalog) (\<lambda>catalog.
       shift_randoms_loop env a field pairs (catalog, rp)))) (\<lambda>u. ?F) (\<lambda>w. False)"
    by (rule hoare_bind [OF _ _, rotated]) (rule hoare_read_shifted, simp)
  then have "hoare ?F (bind (return (catalog, rp)) (\<lambda>(catalog, randoms_positions).
       bind (read_shifted env (Array randoms_positions) field) (\<lambda>randoms_positions_rec.
       bind (return catalog) (\<lambda>catalog.
       shift_randoms_loop env a field pairs (catalog, randoms_positions)))))
       (\<lambda>u. ?F) (\<lambda>w. False)"
    by (simp add: hoare_def bind_def return_def)
  with assms show ?case
    by (simp add: s pair)
qed

lemma quiet_run_reconstruction:
  fixes env :: "'p env"
  assumes nr: "\<not> is_root a"
  shows "hoare (\<lambda>w. fs w = files) (run_reconstruction env a)
     (\<lambda>u w. fs w = files) (\<lambda>w. False)"
proof -
  let ?F = "\<lambda>w :: 'p world. fs w = files"
  let ?N = "\<lambda>w :: 'p world. False"
  have tail: "hoare ?F
     (if convention a \<noteq> ''rsd'' then
       shift_randoms_loop env a (randoms_field (convention a))
         (zip (wrap_scalar (randoms_fn a)) (iterate (randoms_rec_fn a)))
         (catalog, rp)
     else return ()) (\<lambda>u. ?F) ?N" for catalog rp
    by (simp add: quiet_shift_randoms_loop [OF nr] hoare_return)
  have load: "hoare ?F (load_data env a) (\<lambda>x. ?F) ?N"
    using nr by (simp add: load_data_def hoare_return)
  show ?thesis
    unfolding run_reconstruction_def split_def
    apply (rule hoare_bind [OF load])
    apply (rule hoare_bind [where R = "\<lambda>u. ?F"], rule hoare_call, simp)
    apply (rule hoare_bind [where R = "\<lambda>u. ?F"], rule hoare_call, simp)
    apply (rule hoare_bind [OF quiet_assign_randoms_loop [OF nr]])
    apply (rule hoare_bind [where R = "\<lambda>u. ?F"], rule hoare_call, simp)
    apply (rule hoare_bind [where R = "\<lambda>u. ?F"], rule hoare_call, simp)
    apply (rule hoare_bind [where R = "\<lambda>u. ?F"], rule hoare_read_shifted, simp)
    apply (rule hoare_bind [where R = "\<lambda>u. ?F"])
     apply (simp add: nr hoare_return)
    apply (rule tail)
    done
qed

lemma non_root_returns:
  assumes "\<not> is_root a"
  shows "outcome env a files = Inr ()"
    and "fs (snd (run_reconstruction env a (initial files))) = files"
  using hoareD [OF quiet_run_reconstruction [OF assms, of files env], of "initial files"]
  by (cases "fst (run_reconstruction env a (initial files))";
      simp add: outcome_def initial_def)+

lemma root_only_shape: "root_only_shape (shape e) = root_only e"
proof (cases e)
  case (ReadShiftedPositions tgt field r)
  then show ?thesis
    by (cases tgt) simp_all
qed simp_all

lemma non_root_shapes:
  assumes "\<not> is_root a"
  shows "\<forall>c\<in>set (expected_shapes a). \<not> root_only_shape c"
  using assms
  by (auto simp: expected_shapes_def before_density_def after_density_def load_shapes_def
      assign_shapes_def shift_shapes_def split: if_splits)

text \<open>
  C6. With a communicator whose rank is not 0, a run reads and writes no file: none of its
  calls reads a table, reads positions and weights of a catalog file, creates a directory
  or writes a table, and the files on disk are left as they were. Such a run always
  returns; it constructs the reconstruction object with \<^verbatim>\<open>None\<close> positions, and every
  assign call gets \<^verbatim>\<open>None\<close> positions and \<^verbatim>\<open>None\<close> weights.
\<close>

theorem non_root_no_file_io:
  assumes "mpicomm a = Some rank" and "rank \<noteq> 0"
  shows "outcome env a files = Inr ()
    \<and> fs (snd (run_reconstruction env a (initial files))) = files
    \<and> (\<forall>e\<in>set (calls env a files). \<not> root_only e)
    \<and> (\<exists>init. Construct (Reconstruction a) init \<in> set (calls env a files)
          \<and> init_positions init = None)
    \<and> AssignData None None \<in> set (calls env a files)"
proof -
  from assms have nr: "\<not> is_root a"
    by (simp add: is_root_def)
  note ret = non_root_returns [OF nr, of env files]
  from run_shapes_complete [OF ret(1)]
  have sh: "map shape (calls env a files) = expected_shapes a" .
  have none: "\<not> root_only e" if "e \<in> set (calls env a files)" for e
  proof -
    from that have "shape e \<in> set (map shape (calls env a files))"
      by simp
    with sh non_root_shapes [OF nr] have "\<not> root_only_shape (shape e)"
      by simp
    then show ?thesis
      by (simp add: root_only_shape)
  qed
  have "Constructs (Reconstruction a) False \<in> set (map shape (calls env a files))"
    "AssignsData False False \<in> set (map shape (calls env a files))"
    using nr by (simp_all add: sh expected_shapes_def before_density_def)
  then obtain e1 e2 where e1: "e1 \<in> set (calls env a files)"
    "shape e1 = Constructs (Reconstruction a) False"
    and e2: "e2 \<in> set (calls env a files)" "shape e2 = AssignsData False False"
    by auto
  from e1(2) obtain init where "e1 = Construct (Reconstruction a) init" "init_positions init = None"
    by (cases e1 rule: shape.cases) simp_all
  moreover from e2(2) have "e2 = AssignData None None"
    by (cases e2 rule: shape.cases) simp_all
  ultimately show ?thesis
    using ret none e1(1) e2(1) by blast
qed

theorem non_root_no_file_io_witness:
  "mpicomm demo_args_rank1 = Some 1 \<and> (1::nat) \<noteq> 0
   \<and> outcome demo_env demo_args_rank1 demo_files = Inr ()
   \<and> fs (snd (run_reconstruction demo_env demo_args_rank1 (initial demo_files))) = demo_files
   \<and> filter root_only (calls demo_env demo_args_rank1 demo_files) = []
   \<and> (\<exists>init. Construct (Reconstruction demo_args_rank1) init
            \<in> set (calls demo_env demo_args_rank1 demo_files)
          \<and> init_positions init = None)
   \<and> AssignData None None \<in> set (calls demo_env demo_args_rank1 demo_files)"
proof -
  have m: "mpicomm demo_args_rank1 = Some 1"
    by (simp add: demo_args_rank1_def)
  have n: "(1::nat) \<noteq> 0"
    by simp
  from non_root_no_file_io [OF m n, of demo_env demo_files] m n show ?thesis
    by (simp add: filter_empty_conv)
qed

end
